theory Spec2Isabelle
  imports Complex_Main
begin

section \<open>Schema migrations (src/ledger/src/db/migrations.ts)\<close>

text \<open>
  The store is an SQLite database reached through a query builder. Of the store, the
  migrations read the catalogue (\<open>sqlite_master\<close>, \<open>PRAGMA table_info\<close>) and write it with
  \<open>CREATE TABLE\<close>. The model keeps the catalogue as a map from table names to column
  definitions, the list of \<open>CREATE TABLE\<close> statements issued so far, and one flag saying
  whether the connection answers statements at all: the \<open>try/catch\<close> blocks of
  \<open>tableExists\<close> and \<open>verifyTableSchema\<close> turn a failing statement into \<open>false\<close>.
  Console output is not modelled here.
\<close>

datatype column_type = ColText | ColReal

datatype column_default = DefaultLiteral string | DefaultSql string

record column_def =
  col_name :: string
  col_type :: column_type
  col_primary_key :: bool
  col_not_null :: bool
  col_default :: "column_default option"
  col_references :: "string option"

record database =
  tables :: "string \<rightharpoonup> column_def list"
  ddl_issued :: "string list"
  connection_ok :: bool

datatype migration_error =
    SchemaInvalid string
  | StatementFailed string

type_synonym 'a migration = "database \<times> (migration_error + 'a)"

definition addColumn ::
  "string \<Rightarrow> column_type \<Rightarrow> (column_def \<Rightarrow> column_def) \<Rightarrow> column_def" where
  "addColumn n ty build =
     build \<lparr>col_name = n, col_type = ty, col_primary_key = False, col_not_null = False,
            col_default = None, col_references = None\<rparr>"

definition primaryKey :: "column_def \<Rightarrow> column_def" where
  "primaryKey c = c\<lparr>col_primary_key := True\<rparr>"

definition notNull :: "column_def \<Rightarrow> column_def" where
  "notNull c = c\<lparr>col_not_null := True\<rparr>"

definition defaultTo :: "column_default \<Rightarrow> column_def \<Rightarrow> column_def" where
  "defaultTo d c = c\<lparr>col_default := Some d\<rparr>"

definition references :: "string \<Rightarrow> column_def \<Rightarrow> column_def" where
  "references r c = c\<lparr>col_references := Some r\<rparr>"

text \<open>\<open>SELECT name FROM sqlite_master WHERE type = 'table' AND name = ?\<close>,
  rows > 0; a failing statement is caught and answered \<open>false\<close>.\<close>

definition tableExists :: "database \<Rightarrow> string \<Rightarrow> bool" where
  "tableExists db tableName =
     (if connection_ok db then tables db tableName \<noteq> None else False)"

text \<open>\<open>PRAGMA table_info\<close> lists the columns of the table, and no row for
  a table that does not exist.\<close>

definition table_info :: "database \<Rightarrow> string \<Rightarrow> string list" where
  "table_info db tableName =
     (case tables db tableName of None \<Rightarrow> [] | Some cols \<Rightarrow> map col_name cols)"

definition verifyTableSchema :: "database \<Rightarrow> string \<Rightarrow> string list \<Rightarrow> bool" where
  "verifyTableSchema db tableName expectedColumns =
     (if connection_ok db then
        (let existingColumns = table_info db tableName;
             missingColumns = filter (\<lambda>col. col \<notin> set existingColumns) expectedColumns
         in if length missingColumns > 0 then False else True)
      else False)"

text \<open>\<open>db.schema.createTable(name)...execute()\<close>: the statement is issued;
  it fails when the connection fails or the name is taken, and otherwise adds the
  table.\<close>

definition createTable :: "database \<Rightarrow> string \<Rightarrow> column_def list \<Rightarrow> unit migration" where
  "createTable db tableName cols =
     (let db' = db\<lparr>ddl_issued := ddl_issued db @ [tableName]\<rparr>
      in if \<not> connection_ok db \<or> tables db tableName \<noteq> None
         then (db', Inl (StatementFailed tableName))
         else (db'\<lparr>tables := (tables db)(tableName \<mapsto> cols)\<rparr>, Inr ()))"

text \<open>The shape shared by the four \<open>create...Table\<close> functions: an
  existing table is verified and either accepted or refused, a missing one is
  created.\<close>

definition ensureTable ::
  "database \<Rightarrow> string \<Rightarrow> string list \<Rightarrow> column_def list \<Rightarrow> unit migration" where
  "ensureTable db tableName expectedColumns cols =
     (if tableExists db tableName then
        (let isValid = verifyTableSchema db tableName expectedColumns
         in if isValid then (db, Inr ()) else (db, Inl (SchemaInvalid tableName)))
      else createTable db tableName cols)"

definition tenants_expected :: "string list" where
  "tenants_expected = [''id'', ''name'', ''status'', ''created_at'', ''updated_at'']"

definition tenants_columns :: "column_def list" where
  "tenants_columns =
     [addColumn ''id'' ColText (\<lambda>col. defaultTo (DefaultSql ''(uuid())'') (primaryKey col)),
      addColumn ''name'' ColText (\<lambda>col. notNull col),
      addColumn ''status'' ColText (\<lambda>col. defaultTo (DefaultLiteral ''ACTIVE'') (notNull col)),
      addColumn ''created_at'' ColText
        (\<lambda>col. defaultTo (DefaultSql ''(datetime('now'))'') (notNull col)),
      addColumn ''updated_at'' ColText
        (\<lambda>col. defaultTo (DefaultSql ''(datetime('now'))'') (notNull col))]"

definition createTenantsTable :: "database \<Rightarrow> unit migration" where
  "createTenantsTable db = ensureTable db ''tenants'' tenants_expected tenants_columns"

definition accounts_expected :: "string list" where
  "accounts_expected =
     [''id'', ''tenant_id'', ''name'', ''status'', ''parent_account_id'',
      ''created_at'', ''updated_at'']"

definition accounts_columns :: "column_def list" where
  "accounts_columns =
     [addColumn ''id'' ColText (\<lambda>col. defaultTo (DefaultSql ''(uuid())'') (primaryKey col)),
      addColumn ''tenant_id'' ColText (\<lambda>col. references ''tenants.id'' (notNull col)),
      addColumn ''name'' ColText (\<lambda>col. notNull col),
      addColumn ''status'' ColText (\<lambda>col. defaultTo (DefaultLiteral ''ACTIVE'') (notNull col)),
      addColumn ''parent_account_id'' ColText (\<lambda>col. references ''accounts.id'' col),
      addColumn ''created_at'' ColText
        (\<lambda>col. defaultTo (DefaultSql ''(datetime('now'))'') (notNull col)),
      addColumn ''updated_at'' ColText
        (\<lambda>col. defaultTo (DefaultSql ''(datetime('now'))'') (notNull col))]"

definition createAccountsTable :: "database \<Rightarrow> unit migration" where
  "createAccountsTable db = ensureTable db ''accounts'' accounts_expected accounts_columns"

definition transactions_expected :: "string list" where
  "transactions_expected =
     [''id'', ''account_id'', ''memo'', ''currency'', ''external_id'', ''status'',
      ''created_at'', ''updated_at'']"

definition transactions_columns :: "column_def list" where
  "transactions_columns =
     [addColumn ''id'' ColText (\<lambda>col. defaultTo (DefaultSql ''(uuid())'') (primaryKey col)),
      addColumn ''account_id'' ColText (\<lambda>col. references ''accounts.id'' (notNull col)),
      addColumn ''memo'' ColText (\<lambda>col. notNull col),
      addColumn ''currency'' ColText (\<lambda>col. defaultTo (DefaultLiteral ''USD'') (notNull col)),
      addColumn ''external_id'' ColText (\<lambda>col. notNull col),
      addColumn ''status'' ColText (\<lambda>col. defaultTo (DefaultLiteral ''PENDING'') (notNull col)),
      addColumn ''created_at'' ColText
        (\<lambda>col. defaultTo (DefaultSql ''(datetime('now'))'') (notNull col)),
      addColumn ''updated_at'' ColText
        (\<lambda>col. defaultTo (DefaultSql ''(datetime('now'))'') (notNull col))]"

definition createTransactionsTable :: "database \<Rightarrow> unit migration" where
  "createTransactionsTable db =
     ensureTable db ''transactions'' transactions_expected transactions_columns"

definition transaction_entries_expected :: "string list" where
  "transaction_entries_expected =
     [''id'', ''transaction_id'', ''direction'', ''amount'', ''created_at'', ''updated_at'']"

definition transaction_entries_columns :: "column_def list" where
  "transaction_entries_columns =
     [addColumn ''id'' ColText (\<lambda>col. defaultTo (DefaultSql ''(uuid())'') (primaryKey col)),
      addColumn ''transaction_id'' ColText
        (\<lambda>col. references ''transactions.id'' (notNull col)),
      addColumn ''direction'' ColText (\<lambda>col. notNull col),
      addColumn ''amount'' ColReal (\<lambda>col. notNull col),
      addColumn ''created_at'' ColText
        (\<lambda>col. defaultTo (DefaultSql ''(datetime('now'))'') (notNull col)),
      addColumn ''updated_at'' ColText
        (\<lambda>col. defaultTo (DefaultSql ''(datetime('now'))'') (notNull col))]"

definition createTransactionEntriesTable :: "database \<Rightarrow> unit migration" where
  "createTransactionEntriesTable db =
     ensureTable db ''transaction_entries'' transaction_entries_expected
       transaction_entries_columns"

text \<open>\<open>await\<close> in sequence inside \<open>try\<close>; the
  \<open>catch\<close> logs and rethrows, so the first failure ends the run with the
  catalogue as the earlier steps left it.\<close>

definition andThen :: "unit migration \<Rightarrow> (database \<Rightarrow> unit migration) \<Rightarrow> unit migration" where
  "andThen r f = (case snd r of Inl e \<Rightarrow> (fst r, Inl e) | Inr u \<Rightarrow> f (fst r))"

definition migrateToLatest :: "database \<Rightarrow> unit migration" where
  "migrateToLatest db =
     andThen (andThen (andThen (createTenantsTable db) createAccountsTable)
                createTransactionsTable)
       createTransactionEntriesTable"

text \<open>The state the four tables are in when each exists with all its expected
  columns.\<close>

definition has_columns :: "database \<Rightarrow> string \<Rightarrow> string list \<Rightarrow> bool" where
  "has_columns db tableName expectedColumns =
     (case tables db tableName of
        None \<Rightarrow> False
      | Some cols \<Rightarrow> list_all (\<lambda>c. c \<in> set (map col_name cols)) expectedColumns)"

definition schema_complete :: "database \<Rightarrow> bool" where
  "schema_complete db =
     (has_columns db ''tenants'' tenants_expected \<and>
      has_columns db ''accounts'' accounts_expected \<and>
      has_columns db ''transactions'' transactions_expected \<and>
      has_columns db ''transaction_entries'' transaction_entries_expected)"

definition empty_database :: database where
  "empty_database = \<lparr>tables = Map.empty, ddl_issued = [], connection_ok = True\<rparr>"

definition migrated_database :: database where
  "migrated_database =
     \<lparr>tables = [''tenants'' \<mapsto> tenants_columns, ''accounts'' \<mapsto> accounts_columns,
                ''transactions'' \<mapsto> transactions_columns,
                ''transaction_entries'' \<mapsto> transaction_entries_columns],
      ddl_issued = [''tenants'', ''accounts'', ''transactions'', ''transaction_entries''],
      connection_ok = True\<rparr>"

text \<open>For the proofs, the four awaited steps as a list run in order.
  \<open>migrate_run_steps\<close>
  below shows that this is \<open>migrateToLatest\<close>.\<close>

type_synonym migration_step = "string \<times> string list \<times> column_def list"

fun run_steps :: "database \<Rightarrow> migration_step list \<Rightarrow> unit migration" where
  "run_steps db [] = (db, Inr ())"
| "run_steps db ((n, ex, cols) # ss) =
     (case snd (ensureTable db n ex cols) of
        Inl e \<Rightarrow> (fst (ensureTable db n ex cols), Inl e)
      | Inr u \<Rightarrow> run_steps (fst (ensureTable db n ex cols)) ss)"

definition migration_steps :: "migration_step list" where
  "migration_steps =
     [(''tenants'', tenants_expected, tenants_columns),
      (''accounts'', accounts_expected, accounts_columns),
      (''transactions'', transactions_expected, transactions_columns),
      (''transaction_entries'', transaction_entries_expected, transaction_entries_columns)]"

definition settled :: "database \<Rightarrow> migration_step \<Rightarrow> bool" where
  "settled db s = (case s of (n, ex, cols) \<Rightarrow> has_columns db n ex)"

definition well_named :: "migration_step \<Rightarrow> bool" where
  "well_named s = (case s of (n, ex, cols) \<Rightarrow> ex = map col_name cols)"

subsection \<open>What a table accepts\<close>





section \<open>Declared types (src/ledger/src/app.ts, src/ledger/src/db/schema.ts)\<close>

text \<open>
  The entity types of the application and the row types of the schema are TypeScript
  type declarations. They are kept as data: an object type is the list of its fields,
  in the order of the declaration, each with its declared type.
\<close>

datatype ts_type =
    TString
  | TNumber
  | TLiteralUnion "string list"
  | TNullable ts_type
  | TArray ts_type
  | TNamed string
  | TGenerated ts_type

type_synonym ts_object = "(string \<times> ts_type) list"

definition BaseConfiguration :: ts_object where
  "BaseConfiguration =
     [(''name'', TString), (''status'', TLiteralUnion [''ACTIVE'', ''INACTIVE''])]"

definition Currency :: ts_type where
  "Currency = TLiteralUnion [''USD'']"

definition TransactionDirection :: ts_type where
  "TransactionDirection = TLiteralUnion [''CREDIT'', ''DEBIT'']"

definition TransactionStatus :: ts_type where
  "TransactionStatus = TLiteralUnion [''PENDING'', ''POSTED'', ''CANCELLED'']"


definition Transaction :: ts_object where
  "Transaction =
     [(''id'', TString), (''account_id'', TString), (''memo'', TString),
      (''entries'', TArray (TNamed ''TransactionEntry'')),
      (''currency'', TNamed ''Currency''), (''external_id'', TString),
      (''created_at'', TString), (''updated_at'', TString)]"

definition TransactionsTable :: ts_object where
  "TransactionsTable =
     [(''id'', TGenerated TString), (''account_id'', TString), (''memo'', TString),
      (''currency'', TLiteralUnion [''USD'']), (''external_id'', TString),
      (''status'', TLiteralUnion [''PENDING'', ''POSTED'', ''CANCELLED'']),
      (''created_at'', TGenerated TString), (''updated_at'', TGenerated TString)]"


text \<open>The type of a field of an object type, and the named types a declaration
  mentions.\<close>

definition field_type :: "ts_object \<Rightarrow> string \<Rightarrow> ts_type option" where
  "field_type obj f = map_of obj f"

fun mentions :: "ts_type \<Rightarrow> string list" where
  "mentions (TNamed n) = [n]"
| "mentions (TNullable t) = mentions t"
| "mentions (TArray t) = mentions t"
| "mentions (TGenerated t) = mentions t"
| "mentions t = []"

definition mentioned_types :: "ts_object \<Rightarrow> string list" where
  "mentioned_types obj = concat (map (\<lambda>(f, t). mentions t) obj)"

section \<open>The error boundary (src/ledger/src/middlewares/handleError.ts)\<close>

text \<open>
  The environment module is not among the sources: its two values read here are taken as
  a parameter. A response is its status code and the JSON body sent, if one was sent;
  the console is the list of lines written to it.
\<close>

record env =
  NODE_ENV :: string
  DATABASE_PATH :: string

record js_error =
  err_message :: string
  err_stack :: "string option"

record ErrorResponse =
  resp_message :: string

record response =
  statusCode :: nat
  body :: "ErrorResponse option"

text \<open>A string is truthy when it is there and not empty.\<close>

definition truthy :: "string option \<Rightarrow> bool" where
  "truthy s = (case s of None \<Rightarrow> False | Some v \<Rightarrow> v \<noteq> [])"

definition handleError ::
  "env \<Rightarrow> js_error \<Rightarrow> response \<Rightarrow> string list \<Rightarrow> response \<times> string list" where
  "handleError e err res console =
     (let code = (if statusCode res \<noteq> 200 then statusCode res else 500);
          console' = (if truthy (err_stack err) \<and> NODE_ENV e = ''development''
                      then console @ [the (err_stack err)] else console)
      in (res\<lparr>statusCode := code, body := Some \<lparr>resp_message = err_message err\<rparr>\<rparr>, console'))"

definition production_env :: env where
  "production_env = \<lparr>NODE_ENV = ''production'', DATABASE_PATH = ''data/ledger.db''\<rparr>"

definition development_env :: env where
  "development_env = \<lparr>NODE_ENV = ''development'', DATABASE_PATH = ''data/ledger.db''\<rparr>"

definition fresh_response :: response where
  "fresh_response = \<lparr>statusCode = 200, body = None\<rparr>"

definition hierarchy_corrupt_error :: js_error where
  "hierarchy_corrupt_error =
     \<lparr>err_message = ''HierarchyCorrupt: walk from account acc-17 exceeded 3 accounts'',
      err_stack = Some ''Error: HierarchyCorrupt at ancestorsOf''\<rparr>"

definition commit_failure_error :: js_error where
  "commit_failure_error =
     \<lparr>err_message = ''SQLITE_BUSY: database is locked'',
      err_stack = Some ''Error: SQLITE_BUSY at commit''\<rparr>"

section \<open>The store handle (src/ledger/src/db/database.ts)\<close>

text \<open>
  The module keeps one variable, \<open>db\<close>, that holds the handle or \<open>null\<close>. The rest of the
  process that the two functions touch is kept beside it: the identity the next
  constructed object gets, the files that exist, which paths can be opened (creating the
  directory, opening the database and setting its pragmas can each throw), the handles
  destroyed so far, and the console.
\<close>

record Kysely =
  kysely_id :: nat
  kysely_path :: string
  kysely_pragmas :: "string list"
  kysely_functions :: "string list"

record process =
  db :: "Kysely option"
  next_object :: nat
  files :: "string set"
  openable :: "string \<Rightarrow> bool"
  destroyed :: "nat set"
  console_log :: "string list"

datatype database_error = OpenFailed string

definition databasePath :: "env \<Rightarrow> string" where
  "databasePath e = (if NODE_ENV e = ''test'' then '':memory:'' else DATABASE_PATH e)"

definition getDatabase :: "env \<Rightarrow> process \<Rightarrow> process \<times> (database_error + Kysely)" where
  "getDatabase e w =
     (case db w of
        None \<Rightarrow>
          (let path = databasePath e;
               line = (if path \<noteq> '':memory:''
                       then (if path \<in> files w
                             then ''Using existing database at '' @ path
                             else ''Creating new database at '' @ path)
                       else ''Using in-memory database'');
               w1 = w\<lparr>console_log := console_log w @ [line]\<rparr>
           in if \<not> openable w path then (w1, Inl (OpenFailed path))
              else
                (let kysely = \<lparr>kysely_id = next_object w, kysely_path = path,
                                kysely_pragmas = [''journal_mode = WAL'', ''synchronous = NORMAL''],
                                kysely_functions = [''uuid'']\<rparr>
                 in (w1\<lparr>db := Some kysely, next_object := Suc (next_object w),
                         files := (if path \<noteq> '':memory:'' then insert path (files w)
                                   else files w)\<rparr>,
                     Inr kysely)))
      | Some h \<Rightarrow> (w, Inr h))"

definition closeDatabase :: "process \<Rightarrow> process" where
  "closeDatabase w =
     (case db w of
        None \<Rightarrow> w
      | Some h \<Rightarrow> w\<lparr>destroyed := insert (kysely_id h) (destroyed w), db := None\<rparr>)"

definition test_env :: env where
  "test_env = \<lparr>NODE_ENV = ''test'', DATABASE_PATH = ''data/ledger.db''\<rparr>"

definition initial_process :: process where
  "initial_process =
     \<lparr>db = None, next_object = 0, files = {}, openable = (\<lambda>p. True), destroyed = {},
      console_log = []\<rparr>"

section \<open>The ledger core\<close>

text \<open>
  The sources hold the entity types, the schema, the migrations, the store handle and the
  HTTP plumbing. They hold no transaction validator, no account hierarchy resolver, no
    ledger service and no balance projector: these are described by the specification
  only. The note before each definition of this section says where it comes from: a
  type that the sources declare follows the declaration, everything else is modelled
  from the specification.
\<close>

subsection \<open>Data model\<close>

text \<open>The status of a tenant or an account: the union \<open>"ACTIVE" |
  "INACTIVE"\<close> of \<open>BaseConfiguration\<close> in app.ts and of the row types in
  schema.ts.\<close>

datatype entity_status = ACTIVE | INACTIVE

text \<open>\<open>TransactionDirection\<close> of app.ts, the union \<open>"CREDIT" |
  "DEBIT"\<close>.\<close>

datatype direction = CREDIT | DEBIT

text \<open>\<open>TransactionStatus\<close> of app.ts, the union \<open>"PENDING" |
  "POSTED" | "CANCELLED"\<close>, which is also the type of the \<open>status\<close> column
  in schema.ts.\<close>

datatype transaction_status = PENDING | POSTED | CANCELLED

text \<open>Modelled from the spec: the Account of section 3: identity, owning tenant, name,
  status and optional parent.\<close>

record account =
  account_id :: string
  tenant_id :: string
  account_name :: string
  account_status :: entity_status
  parent_account_id :: "string option"

text \<open>\<open>TransactionEntry\<close> of app.ts, field for field. The amount is a \<open>number\<close>
  there, as it is in the row type \<open>TransactionEntriesTable\<close> and in the \<open>real\<close> column
  of the migration; a number is kept as a rational, so that an amount need not be an
  integer and need not be positive. The two timestamps are ISO strings.\<close>

record entry =
  direction :: direction
  amount :: rat
  created_at :: string
  updated_at :: string

text \<open>Modelled from the spec: the Transaction of section 3: identity, owning account,
  memo, currency, external id, status and its entries in order.\<close>

record ledger_transaction =
  tx_id :: string
  tx_account_id :: string
  tx_memo :: string
  tx_currency :: string
  tx_external_id :: string
  tx_status :: transaction_status
  tx_entries :: "entry list"

text \<open>Modelled from the spec: the Entity Store of section 2, keyed storage for accounts
  and transactions, kept as tables: lists of rows in insertion order, read by key. The
  clock is what the \<open>datetime('now')\<close> default of the schema yields when a row is
  written.\<close>

record store =
  accounts :: "account list"
  transactions :: "ledger_transaction list"
  clock :: string

text \<open>Modelled from the spec: one entry of the input of
  \<open>createTransaction\<close> (section 6). Its amount is the number the caller
  supplies, which need not be an integer; it is a rational here.\<close>

record draft_entry =
  draft_direction :: direction
  draft_amount :: rat

text \<open>Modelled from the spec: the input of \<open>createTransaction\<close> (section
  6), the draft the validator works on (section 4.2).\<close>

record draft =
  draft_tenant_id :: string
  draft_account_id :: string
  draft_memo :: string
  draft_currency :: string
  draft_external_id :: string
  draft_entries :: "draft_entry list"

text \<open>Modelled from the spec: the error taxonomy of section 7.
  \<open>UnbalancedTransaction\<close> carries the signed difference,
  \<open>InvalidTransition\<close> the current and the attempted state;
  \<open>CommitFailed\<close> is the commit failure of the store.\<close>

datatype ledger_error =
    InsufficientEntries
  | InvalidAmount
  | UnsupportedCurrency
    | UnbalancedTransaction rat
  | AccountNotEligible
  | InvalidTransition transaction_status transaction_status
  | NotFound
  | HierarchyCorrupt
  | CommitFailed

text \<open>Modelled from the spec: the row-level read primitive keyed by id (section 6),
  for accounts. A read answers the first row with the key.\<close>

definition find_account :: "store \<Rightarrow> string \<Rightarrow> account option" where
  "find_account s k = find (\<lambda>a. account_id a = k) (accounts s)"

text \<open>Modelled from the spec: the row-level read primitive keyed by id (section 6),
  for transactions.\<close>

definition find_transaction :: "store \<Rightarrow> string \<Rightarrow> ledger_transaction option" where
  "find_transaction s k = find (\<lambda>t. tx_id t = k) (transactions s)"

text \<open>Modelled from the spec: the row-level write primitive keyed by id (section 6):
  the first row selected is replaced, the others are kept.\<close>

fun update_first :: "('a \<Rightarrow> bool) \<Rightarrow> 'a \<Rightarrow> 'a list \<Rightarrow> 'a list" where
  "update_first p y [] = []"
| "update_first p y (x # xs) = (if p x then y # xs else x # update_first p y xs)"

text \<open>Modelled from the spec: writing a transaction back under its identity (section
  6).\<close>

definition write_transaction :: "store \<Rightarrow> ledger_transaction \<Rightarrow> store" where
  "write_transaction s t =
     s\<lparr>transactions := update_first (\<lambda>u. tx_id u = tx_id t) t (transactions s)\<rparr>"

subsection \<open>Transaction validator\<close>

text \<open>Modelled from the spec: check 2 of the validator (section 4.2): the amount is an
  integer and positive.\<close>

definition is_positive_integer :: "rat \<Rightarrow> bool" where
  "is_positive_integer a = (of_int \<lfloor>a\<rfloor> = a \<and> 0 < a)"

text \<open>Modelled from the spec: the supported set of check 3 (section 4.2); the one
  supported currency is that of the \<open>Currency\<close> type.\<close>

definition supported_currencies :: "string list" where
  "supported_currencies = [''USD'']"

text \<open>Modelled from the spec: the entry stored for a draft entry (section 4.3): the
  direction and the amount as the caller gave them, stamped with the time of writing.\<close>

definition to_entry :: "string \<Rightarrow> draft_entry \<Rightarrow> entry" where
  "to_entry now e =
     \<lparr>direction = draft_direction e, amount = draft_amount e, created_at = now,
      updated_at = now\<rparr>"

text \<open>Modelled from the spec: the sum of the debit amounts and the sum of the credit
  amounts of check 4 (section 4.2), of a draft. The sums are exact: no amount is
  rounded.\<close>

definition draft_debit_total :: "draft_entry list \<Rightarrow> rat" where
  "draft_debit_total es =
     sum_list (map draft_amount (filter (\<lambda>e. draft_direction e = DEBIT) es))"

definition draft_credit_total :: "draft_entry list \<Rightarrow> rat" where
  "draft_credit_total es =
     sum_list (map draft_amount (filter (\<lambda>e. draft_direction e = CREDIT) es))"

text \<open>Modelled from the spec: the same two sums over the stored entries of a transaction,
  which \<open>postTransaction\<close> validates again (section 4.3).\<close>

definition debit_total :: "entry list \<Rightarrow> rat" where
  "debit_total es = sum_list (map amount (filter (\<lambda>e. direction e = DEBIT) es))"

definition credit_total :: "entry list \<Rightarrow> rat" where
  "credit_total es = sum_list (map amount (filter (\<lambda>e. direction e = CREDIT) es))"


text \<open>Modelled from the spec: the transaction validator (section 4.2), its five checks
  in the order given, the first failure winning. The difference reported is debits minus
  credits, as in the example of section 8 (debit 1000, credit 900, difference 100). Check 5
  reads "belongs to a tenant" as: the account found belongs to the tenant the draft is
  created for.\<close>

definition validate :: "(string \<Rightarrow> account option) \<Rightarrow> draft \<Rightarrow> ledger_error + unit" where
    "validate lookup d =
     (let es = draft_entries d in
      if length es < 2 then Inl InsufficientEntries
      else if \<not> list_all (\<lambda>e. is_positive_integer (draft_amount e)) es
        then Inl InvalidAmount
      else if draft_currency d \<notin> set supported_currencies then Inl UnsupportedCurrency
      else if draft_debit_total es \<noteq> draft_credit_total es
        then Inl (UnbalancedTransaction (draft_debit_total es - draft_credit_total es))
      else (case lookup (draft_account_id d) of
              None \<Rightarrow> Inl AccountNotEligible
            | Some a \<Rightarrow>
                if tenant_id a = draft_tenant_id d \<and> account_status a = ACTIVE
                then Inr () else Inl AccountNotEligible))"

subsection \<open>Ledger service\<close>

text \<open>Each operation of the ledger service is one atomic unit of work: it answers the
  store after it and either the transaction or the error, and an error leaves the store as
  it was.\<close>

text \<open>Modelled from the spec: \<open>createTransaction\<close> (section 4.3): the
  draft is validated and persisted as \<open>PENDING\<close>. The identity of the new
  transaction is generated outside the core (the schema's \<open>uuid()\<close> default) and
  is an argument; the commit fails when it is taken.\<close>

definition createTransaction ::
  "store \<Rightarrow> string \<Rightarrow> draft \<Rightarrow> store \<times> (ledger_error + ledger_transaction)" where
  "createTransaction s new_id d =
     (case validate (find_account s) d of
        Inl e \<Rightarrow> (s, Inl e)
      | Inr u \<Rightarrow>
          if find_transaction s new_id \<noteq> None then (s, Inl CommitFailed)
          else
            (let t = \<lparr>tx_id = new_id, tx_account_id = draft_account_id d,
                      tx_memo = draft_memo d, tx_currency = draft_currency d,
                      tx_external_id = draft_external_id d, tx_status = PENDING,
                                            tx_entries = map (to_entry (clock s)) (draft_entries d)\<rparr>
             in (s\<lparr>transactions := transactions s @ [t]\<rparr>, Inr t)))"

text \<open>Modelled from the spec: \<open>postTransaction\<close> (section 4.3): not found,
  not pending, unbalanced on the stored entries, or the transition to \<open>POSTED\<close>.
  The state is checked before the balance.\<close>

definition postTransaction ::
  "store \<Rightarrow> string \<Rightarrow> store \<times> (ledger_error + ledger_transaction)" where
  "postTransaction s k =
     (case find_transaction s k of
        None \<Rightarrow> (s, Inl NotFound)
      | Some t \<Rightarrow>
          if tx_status t \<noteq> PENDING then (s, Inl (InvalidTransition (tx_status t) POSTED))
          else if debit_total (tx_entries t) \<noteq> credit_total (tx_entries t)
            then (s, Inl (UnbalancedTransaction
                            (debit_total (tx_entries t) - credit_total (tx_entries t))))
          else (let t' = t\<lparr>tx_status := POSTED\<rparr> in (write_transaction s t', Inr t')))"

text \<open>Modelled from the spec: \<open>cancelTransaction\<close> (section 4.3): not
  found, not pending, or the transition to \<open>CANCELLED\<close>.\<close>

definition cancelTransaction ::
  "store \<Rightarrow> string \<Rightarrow> store \<times> (ledger_error + ledger_transaction)" where
  "cancelTransaction s k =
     (case find_transaction s k of
        None \<Rightarrow> (s, Inl NotFound)
      | Some t \<Rightarrow>
          if tx_status t \<noteq> PENDING then (s, Inl (InvalidTransition (tx_status t) CANCELLED))
          else (let t' = t\<lparr>tx_status := CANCELLED\<rparr> in (write_transaction s t', Inr t')))"

subsection \<open>Account hierarchy resolver\<close>

text \<open>Modelled from the spec: the bound of \<open>ancestorsOf\<close> (section 4.1):
  the number of accounts of a tenant.\<close>

definition tenant_account_count :: "store \<Rightarrow> string \<Rightarrow> nat" where
  "tenant_account_count s tn = length (filter (\<lambda>a. tenant_id a = tn) (accounts s))"

text \<open>Modelled from the spec: the bounded walk of \<open>ancestorsOf\<close> (section
  4.1) along parent links, nearest first, until a root (an account without parent). The
  second argument is the number of ancestors the walk may still visit; a further ancestor
  beyond it is \<open>HierarchyCorrupt\<close>. An identity that has no row is
  \<open>NotFound\<close>.\<close>

fun walk :: "store \<Rightarrow> nat \<Rightarrow> string option \<Rightarrow> ledger_error + string list" where
  "walk s n None = Inr []"
| "walk s 0 (Some p) = Inl HierarchyCorrupt"
| "walk s (Suc n) (Some p) =
     (case find_account s p of
        None \<Rightarrow> Inl NotFound
      | Some a \<Rightarrow>
          (case walk s n (parent_account_id a) of
             Inl e \<Rightarrow> Inl e
           | Inr ps \<Rightarrow> Inr (p # ps)))"

text \<open>Modelled from the spec: \<open>ancestorsOf\<close> (section 4.1): the walk from
  the parent of the account, bounded by the number of accounts of its tenant.\<close>

definition ancestorsOf :: "store \<Rightarrow> string \<Rightarrow> ledger_error + string list" where
  "ancestorsOf s k =
     (case find_account s k of
        None \<Rightarrow> Inl NotFound
      | Some a \<Rightarrow> walk s (tenant_account_count s (tenant_id a)) (parent_account_id a))"

subsection \<open>Balance projector\<close>

text \<open>Modelled from the spec: the polarity of section 4.4: a credit adds its amount to
  the balance, a debit subtracts it.\<close>

definition apply_entry :: "rat \<Rightarrow> entry \<Rightarrow> rat" where
  "apply_entry b e = (case direction e of CREDIT \<Rightarrow> b + amount e | DEBIT \<Rightarrow> b - amount e)"

text \<open>Modelled from the spec: the fold of section 4.4 over the entries of one
  transaction: only a posted transaction of the account is applied.\<close>

definition apply_transaction :: "string \<Rightarrow> rat \<Rightarrow> ledger_transaction \<Rightarrow> rat" where
  "apply_transaction k b t =
     (if tx_account_id t = k \<and> tx_status t = POSTED then foldl apply_entry b (tx_entries t)
      else b)"

text \<open>Modelled from the spec: the balance of one account by itself (section 4.4), a
  fold over the stored transactions.\<close>

definition own_balance :: "store \<Rightarrow> string \<Rightarrow> rat" where
  "own_balance s k = foldl (apply_transaction k) 0 (transactions s)"

text \<open>Modelled from the spec: the inverse of \<open>ancestorsOf\<close> (section 4.4):
  the accounts, among those given, that have the queried account among their ancestors. A
  failing ancestor walk fails the answer.\<close>

fun descendants_among :: "store \<Rightarrow> string \<Rightarrow> account list \<Rightarrow> ledger_error + string list" where
  "descendants_among s k [] = Inr []"
| "descendants_among s k (a # as) =
     (case ancestorsOf s (account_id a) of
        Inl e \<Rightarrow> Inl e
      | Inr ps \<Rightarrow>
          (case descendants_among s k as of
             Inl e \<Rightarrow> Inl e
           | Inr ds \<Rightarrow> Inr (if k \<in> set ps then account_id a # ds else ds)))"

text \<open>Modelled from the spec: \<open>balanceOf\<close> (section 4.4): the balance of
  the account, and with \<open>includeDescendants\<close> that of its descendants
  added.\<close>

definition balanceOf :: "store \<Rightarrow> string \<Rightarrow> bool \<Rightarrow> ledger_error + rat" where
  "balanceOf s k includeDescendants =
     (if includeDescendants then
        (case descendants_among s k (accounts s) of
           Inl e \<Rightarrow> Inl e
         | Inr ds \<Rightarrow> Inr (own_balance s k + sum_list (map (own_balance s) ds)))
      else Inr (own_balance s k))"

subsection \<open>Sequences of calls\<close>

text \<open>The calls a caller can make on transactions, and the store after a sequence of
  them.\<close>

datatype command =
    CreateTransaction string draft
  | PostTransaction string
  | CancelTransaction string

fun exec :: "store \<Rightarrow> command \<Rightarrow> store" where
  "exec s (CreateTransaction new_id d) = fst (createTransaction s new_id d)"
| "exec s (PostTransaction k) = fst (postTransaction s k)"
| "exec s (CancelTransaction k) = fst (cancelTransaction s k)"

definition run :: "store \<Rightarrow> command list \<Rightarrow> store" where
  "run s cs = foldl exec s cs"

text \<open>What the claims are measured against: a balanced transaction, a store whose posted
  transactions are all balanced, and a store whose entry amounts are all positive
  integers.\<close>

definition balanced :: "ledger_transaction \<Rightarrow> bool" where
  "balanced t = (debit_total (tx_entries t) = credit_total (tx_entries t))"



text \<open>What the answer is measured against. \<open>ancestor_chain s cur ps\<close>: the
  link \<open>cur\<close>
  leads to the first of \<open>ps\<close>, every later element is the parent of the one before it,
  and the last one is a root. \<open>ancestor_links s cur ps\<close>: the same without the root at
  the end, and without asking that the last element has a row.\<close>

fun ancestor_chain :: "store \<Rightarrow> string option \<Rightarrow> string list \<Rightarrow> bool" where
  "ancestor_chain s cur [] = (cur = None)"
| "ancestor_chain s cur (p # ps) =
     (cur = Some p \<and>
      (case find_account s p of
         None \<Rightarrow> False
       | Some a \<Rightarrow> ancestor_chain s (parent_account_id a) ps))"

fun ancestor_links :: "store \<Rightarrow> string option \<Rightarrow> string list \<Rightarrow> bool" where
  "ancestor_links s cur [] = True"
| "ancestor_links s cur [p] = (cur = Some p)"
| "ancestor_links s cur (p # q # ps) =
     (cur = Some p \<and>
      (case find_account s p of
         None \<Rightarrow> False
       | Some a \<Rightarrow> ancestor_links s (parent_account_id a) (q # ps)))"

section \<open>Example stores and drafts\<close>

text \<open>The concrete values at which the theorems below are evaluated.\<close>

definition account_a1 :: account where
  "account_a1 = \<lparr>account_id = ''a1'', tenant_id = ''t1'', account_name = ''cash'',
                  account_status = ACTIVE, parent_account_id = None\<rparr>"

definition debit_1000 :: entry where
  "debit_1000 = \<lparr>direction = DEBIT, amount = 1000, created_at = ''2024-01-01 09:00:00'',
                  updated_at = ''2024-01-01 09:00:00''\<rparr>"

definition credit_1000 :: entry where
  "credit_1000 = \<lparr>direction = CREDIT, amount = 1000, created_at = ''2024-01-01 09:00:00'',
                   updated_at = ''2024-01-01 09:00:00''\<rparr>"

definition credit_900 :: entry where
  "credit_900 = \<lparr>direction = CREDIT, amount = 900, created_at = ''2024-01-01 09:00:00'',
                  updated_at = ''2024-01-01 09:00:00''\<rparr>"

definition balanced_tx :: ledger_transaction where
  "balanced_tx = \<lparr>tx_id = ''tx1'', tx_account_id = ''a1'', tx_memo = ''rent'',
                   tx_currency = ''USD'', tx_external_id = ''ext-1'', tx_status = PENDING,
                   tx_entries = [debit_1000, credit_1000]\<rparr>"

definition unbalanced_tx :: ledger_transaction where
  "unbalanced_tx = \<lparr>tx_id = ''tx2'', tx_account_id = ''a1'', tx_memo = ''fees'',
                     tx_currency = ''USD'', tx_external_id = ''ext-2'', tx_status = PENDING,
                     tx_entries = [debit_1000, credit_900]\<rparr>"

definition posted_tx :: ledger_transaction where
  "posted_tx = balanced_tx\<lparr>tx_status := POSTED\<rparr>"

definition example_store :: store where
  "example_store =
     \<lparr>accounts = [account_a1], transactions = [balanced_tx, unbalanced_tx],
      clock = ''2024-01-02 10:00:00''\<rparr>"

definition settled_store :: store where
  "settled_store =
     \<lparr>accounts = [account_a1], transactions = [posted_tx], clock = ''2024-01-02 10:00:00''\<rparr>"

definition mutated_store :: store where
  "mutated_store =
     \<lparr>accounts = [account_a1], transactions = [unbalanced_tx\<lparr>tx_status := POSTED\<rparr>],
      clock = ''2024-01-02 10:00:00''\<rparr>"


definition balanced_draft :: draft where
  "balanced_draft =
     \<lparr>draft_tenant_id = ''t1'', draft_account_id = ''a1'', draft_memo = ''rent'',
      draft_currency = ''USD'', draft_external_id = ''ext-4'',
      draft_entries = [\<lparr>draft_direction = DEBIT, draft_amount = 1000\<rparr>,
                       \<lparr>draft_direction = CREDIT, draft_amount = 1000\<rparr>]\<rparr>"






definition root_account :: account where
  "root_account = \<lparr>account_id = ''r'', tenant_id = ''t1'', account_name = ''assets'',
                    account_status = ACTIVE, parent_account_id = None\<rparr>"

definition mid_account :: account where
  "mid_account = \<lparr>account_id = ''m'', tenant_id = ''t1'', account_name = ''current'',
                   account_status = ACTIVE, parent_account_id = Some ''r''\<rparr>"

definition leaf_account :: account where
  "leaf_account = \<lparr>account_id = ''l'', tenant_id = ''t1'', account_name = ''cash'',
                    account_status = ACTIVE, parent_account_id = Some ''m''\<rparr>"

definition twig_account :: account where
  "twig_account = \<lparr>account_id = ''w'', tenant_id = ''t1'', account_name = ''till'',
                    account_status = ACTIVE, parent_account_id = Some ''l''\<rparr>"

definition tree_store :: store where
  "tree_store =
     \<lparr>accounts = [root_account, mid_account, leaf_account, twig_account],
      transactions = [], clock = ''2024-01-02 10:00:00''\<rparr>"

definition cycle_x :: account where
  "cycle_x = \<lparr>account_id = ''x'', tenant_id = ''t1'', account_name = ''x'',
               account_status = ACTIVE, parent_account_id = Some ''y''\<rparr>"

definition cycle_y :: account where
  "cycle_y = \<lparr>account_id = ''y'', tenant_id = ''t1'', account_name = ''y'',
               account_status = ACTIVE, parent_account_id = Some ''x''\<rparr>"

definition cyclic_store :: store where
  "cyclic_store =
     \<lparr>accounts = [cycle_x, cycle_y], transactions = [], clock = ''2024-01-02 10:00:00''\<rparr>"

section \<open>Idempotence of the migrations\<close>

lemma tenants_names: "map col_name tenants_columns = tenants_expected"
  by (simp add: tenants_columns_def tenants_expected_def addColumn_def primaryKey_def notNull_def defaultTo_def references_def)

lemma accounts_names: "map col_name accounts_columns = accounts_expected"
  by (simp add: accounts_columns_def accounts_expected_def addColumn_def primaryKey_def notNull_def defaultTo_def references_def)

lemma transactions_names: "map col_name transactions_columns = transactions_expected"
  by (simp add: transactions_columns_def transactions_expected_def addColumn_def primaryKey_def notNull_def defaultTo_def references_def)

lemma transaction_entries_names: "map col_name transaction_entries_columns = transaction_entries_expected"
  by (simp add: transaction_entries_columns_def transaction_entries_expected_def addColumn_def primaryKey_def notNull_def defaultTo_def references_def)

lemma verify_iff: "verifyTableSchema dbase n ex = (connection_ok dbase \<and> list_all (\<lambda>c. c \<in> set (table_info dbase n)) ex)"
  by (auto simp: verifyTableSchema_def Let_def list_all_iff filter_empty_conv)

lemma ensure_settled:
  "connection_ok dbase \<Longrightarrow> has_columns dbase n ex \<Longrightarrow> ensureTable dbase n ex cols = (dbase, Inr ())"
  by (auto simp: ensureTable_def tableExists_def verify_iff has_columns_def table_info_def split: option.splits)

lemma ensure_ok_settles:
  "snd (ensureTable dbase n (map col_name cols) cols) = Inr () \<Longrightarrow>
   connection_ok (fst (ensureTable dbase n (map col_name cols) cols)) \<and>
   has_columns (fst (ensureTable dbase n (map col_name cols) cols)) n (map col_name cols)"
  by (auto simp: ensureTable_def tableExists_def verify_iff has_columns_def table_info_def createTable_def Let_def list_all_iff split: option.splits if_splits)

lemma ensure_conn: "connection_ok (fst (ensureTable dbase n ex cols)) = connection_ok dbase"
  by (auto simp: ensureTable_def createTable_def Let_def)

lemma ensure_keeps:
  "has_columns dbase m ex' \<Longrightarrow> has_columns (fst (ensureTable dbase n ex cols)) m ex'"
  by (auto simp: ensureTable_def tableExists_def has_columns_def createTable_def Let_def split: option.splits if_splits)

lemma ensure_fail_tables:
  "snd (ensureTable dbase n ex cols) = Inl e \<Longrightarrow> tables (fst (ensureTable dbase n ex cols)) = tables dbase"
  by (auto simp: ensureTable_def createTable_def Let_def split: if_splits)

lemma ensure_cong:
  "tables db1 = tables db2 \<Longrightarrow> connection_ok db1 = connection_ok db2 \<Longrightarrow>
   tables (fst (ensureTable db1 n ex cols)) = tables (fst (ensureTable db2 n ex cols)) \<and>
   snd (ensureTable db1 n ex cols) = snd (ensureTable db2 n ex cols)"
  by (auto simp: ensureTable_def tableExists_def verify_iff table_info_def createTable_def Let_def)

lemma migrate_run_steps: "migrateToLatest dbase = run_steps dbase migration_steps"
  by (auto simp: migrateToLatest_def migration_steps_def andThen_def createTenantsTable_def
      createAccountsTable_def createTransactionsTable_def createTransactionEntriesTable_def
      prod_eq_iff split: sum.splits)

lemma run_settled:
  "connection_ok dbase \<Longrightarrow> list_all (settled dbase) ss \<Longrightarrow> run_steps dbase ss = (dbase, Inr ())"
  by (induction ss) (auto simp: settled_def ensure_settled)

lemma run_conn: "connection_ok (fst (run_steps dbase ss)) = connection_ok dbase"
  by (induction dbase ss rule: run_steps.induct) (auto simp: ensure_conn split: sum.splits)

lemma run_keeps: "has_columns dbase m ex' \<Longrightarrow> has_columns (fst (run_steps dbase ss)) m ex'"
  by (induction dbase ss rule: run_steps.induct) (auto simp: ensure_keeps split: sum.splits)

lemma run_ok_settles:
  "list_all well_named ss \<Longrightarrow> snd (run_steps dbase ss) = Inr () \<Longrightarrow>
   (ss \<noteq> [] \<longrightarrow> connection_ok dbase) \<and> list_all (settled (fst (run_steps dbase ss))) ss"
proof (induction dbase ss rule: run_steps.induct)
  case (1 dbase)
  then show ?case by simp
next
  case (2 dbase n ex cols ss)
  let ?r = "ensureTable dbase n ex cols"
  from "2.prems" have ex: "ex = map col_name cols" by (simp add: well_named_def)
  from "2.prems" obtain ok: "snd ?r = Inr ()" and rest: "snd (run_steps (fst ?r) ss) = Inr ()"
    by (auto split: sum.splits)
  from ok ex have here: "connection_ok (fst ?r)" "has_columns (fst ?r) n ex"
    using ensure_ok_settles [of dbase n cols] by simp_all
  from "2.IH" [OF ok] "2.prems" rest
  have ih: "list_all (settled (fst (run_steps (fst ?r) ss))) ss" by simp
  have "settled (fst (run_steps (fst ?r) ss)) (n, ex, cols)"
    using here(2) by (simp add: settled_def run_keeps)
  with ih ok here(1) show ?case by (simp add: ensure_conn)
qed

lemma run_cong:
  "tables db1 = tables db2 \<Longrightarrow> connection_ok db1 = connection_ok db2 \<Longrightarrow>
   tables (fst (run_steps db1 ss)) = tables (fst (run_steps db2 ss)) \<and>
   snd (run_steps db1 ss) = snd (run_steps db2 ss)"
proof (induction ss arbitrary: db1 db2)
  case Nil
  then show ?case by simp
next
  case (Cons s ss)
  obtain n ex cols where s: "s = (n, ex, cols)" by (cases s) auto
  from ensure_cong [OF Cons.prems, of n ex cols]
  have t: "tables (fst (ensureTable db1 n ex cols)) = tables (fst (ensureTable db2 n ex cols))"
    and r: "snd (ensureTable db1 n ex cols) = snd (ensureTable db2 n ex cols)" by simp_all
  have c: "connection_ok (fst (ensureTable db1 n ex cols)) = connection_ok (fst (ensureTable db2 n ex cols))"
    using Cons.prems by (simp add: ensure_conn)
  show ?case using Cons.IH [OF t c] t r by (simp add: s split: sum.splits)
qed

lemma has_columns_cong: "tables db1 = tables db2 \<Longrightarrow> has_columns db1 n ex = has_columns db2 n ex"
  by (simp add: has_columns_def)

lemma run_fail_again:
  "list_all well_named ss \<Longrightarrow> snd (run_steps dbase ss) = Inl e \<Longrightarrow>
   tables d = tables (fst (run_steps dbase ss)) \<Longrightarrow> connection_ok d = connection_ok dbase \<Longrightarrow>
   tables (fst (run_steps d ss)) = tables d \<and> snd (run_steps d ss) = Inl e"
proof (induction dbase ss arbitrary: d rule: run_steps.induct)
  case (1 dbase)
  then show ?case by simp
next
  case (2 dbase n ex cols ss)
  let ?r = "ensureTable dbase n ex cols"
  from "2.prems" have ex: "ex = map col_name cols" by (simp add: well_named_def)
  show ?case
  proof (cases "snd ?r")
    case (Inl e')
    with "2.prems" have e': "e' = e" and td: "tables d = tables (fst ?r)" by simp_all
    from Inl have "tables (fst ?r) = tables dbase" by (rule ensure_fail_tables)
    with td have eq: "tables d = tables dbase" by simp
    from ensure_cong [OF eq "2.prems"(4), of n ex cols] Inl e' td
    show ?thesis by simp
  next
    case (Inr u)
    then have ok: "snd ?r = Inr ()" by simp
    with "2.prems" have rest: "snd (run_steps (fst ?r) ss) = Inl e"
      and td: "tables d = tables (fst (run_steps (fst ?r) ss))" by simp_all
    from ok ex have here: "connection_ok (fst ?r)" "has_columns (fst ?r) n ex"
      using ensure_ok_settles [of dbase n cols] by simp_all
    from here(2) have "has_columns (fst (run_steps (fst ?r) ss)) n ex" by (rule run_keeps)
    with td have hd: "has_columns d n ex" by (simp add: has_columns_cong [of d])
    from here(1) "2.prems"(4) have cd: "connection_ok d" by (simp add: ensure_conn)
    from ensure_settled [OF cd hd] have same: "ensureTable d n ex cols = (d, Inr ())" .
    have cd': "connection_ok d = connection_ok (fst ?r)" using cd here(1) by simp
    from "2.IH" [OF ok _ rest td cd'] "2.prems"(1)
    have "tables (fst (run_steps d ss)) = tables d \<and> snd (run_steps d ss) = Inl e" by simp
    with same show ?thesis by simp
  qed
qed

lemma run_twice_tables:
  assumes wn: "list_all well_named ss"
  shows "tables (fst (run_steps (fst (run_steps dbase ss)) ss)) = tables (fst (run_steps dbase ss)) \<and>
   snd (run_steps (fst (run_steps dbase ss)) ss) = snd (run_steps dbase ss)"
proof (cases "snd (run_steps dbase ss)")
  case (Inl e)
  from run_fail_again [OF wn Inl refl] run_conn [of dbase ss] Inl show ?thesis by simp
next
  case (Inr u)
  then have ok: "snd (run_steps dbase ss) = Inr ()" by simp
  show ?thesis
  proof (cases ss)
    case Nil
    then show ?thesis by simp
  next
    case (Cons s ss')
    with run_ok_settles [OF wn ok] have c: "connection_ok dbase"
      and st: "list_all (settled (fst (run_steps dbase ss))) ss" by simp_all
    from c have "connection_ok (fst (run_steps dbase ss))" by (simp add: run_conn)
    from run_settled [OF this st] ok show ?thesis by simp
  qed
qed

lemma steps_well_named: "list_all well_named migration_steps"
  by (simp add: migration_steps_def well_named_def tenants_names accounts_names
      transactions_names transaction_entries_names)

lemma migrate_twice: "tables (fst (migrateToLatest (fst (migrateToLatest dbase)))) = tables (fst (migrateToLatest dbase))
  \<and> snd (migrateToLatest (fst (migrateToLatest dbase))) = snd (migrateToLatest dbase)"
  using run_twice_tables [OF steps_well_named, of dbase] by (simp add: migrate_run_steps)

lemma migrate_complete: "connection_ok dbase \<Longrightarrow> schema_complete dbase \<Longrightarrow> migrateToLatest dbase = (dbase, Inr ())"
  unfolding migrate_run_steps
  by (rule run_settled) (simp_all add: migration_steps_def settled_def schema_complete_def)

lemma migrate_from_empty: "migrateToLatest empty_database = (migrated_database, Inr ())"
  by (simp add: migrate_run_steps migration_steps_def ensureTable_def tableExists_def
      createTable_def empty_database_def migrated_database_def Let_def)

text \<open>
  Claim C8. \<open>migrateToLatest\<close> is idempotent. Run against a store that answers its
  statements and whose four tables exist with all expected columns, it succeeds and
  returns the store as it was, the list of issued \<open>CREATE TABLE\<close> statements included:
  no DDL is executed. From any starting state, also one where the run fails part of the
  way, a second run ends with the same tables and the same outcome as the first.
\<close>

theorem migrateToLatest_idempotent:
  "(connection_ok dbase \<and> schema_complete dbase \<longrightarrow> migrateToLatest dbase = (dbase, Inr ())) \<and>
   tables (fst (migrateToLatest (fst (migrateToLatest dbase)))) = tables (fst (migrateToLatest dbase)) \<and>
   snd (migrateToLatest (fst (migrateToLatest dbase))) = snd (migrateToLatest dbase)"
  using migrate_complete [of dbase] migrate_twice [of dbase] by blast

theorem migrateToLatest_idempotent_witness:
  "connection_ok migrated_database \<and> schema_complete migrated_database \<and>
   migrateToLatest migrated_database = (migrated_database, Inr ()) \<and>
   ddl_issued (fst (migrateToLatest migrated_database)) = ddl_issued migrated_database"
proof -
  have c: "connection_ok migrated_database" by (simp add: migrated_database_def)
  have s: "schema_complete migrated_database"
    by (simp add: schema_complete_def has_columns_def migrated_database_def tenants_names
        accounts_names transactions_names transaction_entries_names list_all_iff)
  from migrateToLatest_idempotent [of migrated_database] c s show ?thesis by simp
qed

section \<open>The status field of a transaction\<close>

text \<open>
  Claim C5, evaluated on the declarations. The persisted row type \<open>TransactionsTable\<close>
  has a \<open>status\<close> field of exactly the three values, which are also the values of the
  declared \<open>TransactionStatus\<close>. The entity type \<open>Transaction\<close> has no \<open>status\<close> field, and
  no field of it mentions \<open>TransactionStatus\<close>.
\<close>

theorem Transaction_entity_lacks_status:
  "field_type TransactionsTable ''status'' = Some TransactionStatus \<and>
   TransactionStatus = TLiteralUnion [''PENDING'', ''POSTED'', ''CANCELLED''] \<and>
   field_type Transaction ''status'' = None \<and>
   ''TransactionStatus'' \<notin> set (mentioned_types Transaction)"
  by (simp add: field_type_def TransactionsTable_def TransactionStatus_def Transaction_def
      mentioned_types_def)

section \<open>What the error boundary sends\<close>

text \<open>
  Claim C9 as stated fails. In production an internal failure is not logged at all, and
  the body sent to the caller carries the message of the underlying error, so two
  different internal failures give two different bodies.
\<close>

theorem handleError_leaks_counterexample:
  "handleError production_env hierarchy_corrupt_error fresh_response [] =
     (\<lparr>statusCode = 500,
       body = Some \<lparr>resp_message =
         ''HierarchyCorrupt: walk from account acc-17 exceeded 3 accounts''\<rparr>\<rparr>, []) \<and>
   handleError production_env commit_failure_error fresh_response [] =
     (\<lparr>statusCode = 500, body = Some \<lparr>resp_message = ''SQLITE_BUSY: database is locked''\<rparr>\<rparr>, [])"
  by (simp add: handleError_def production_env_def hierarchy_corrupt_error_def
      commit_failure_error_def fresh_response_def truthy_def)

text \<open>
  Claim C9 as amended. For every error that reaches \<open>handleError\<close>: the status sent is
  the one already set on the response, or 500 when that is 200; the body sent carries
  the message of the error as it is; and the console receives the stack of the error,
  and nothing else, exactly when the stack is a non-empty string and \<open>NODE_ENV\<close> is
  \<open>development\<close>.
\<close>

theorem handleError_sends_error_message:
  "statusCode (fst (handleError e err res console)) =
     (if statusCode res = 200 then 500 else statusCode res) \<and>
   body (fst (handleError e err res console)) = Some \<lparr>resp_message = err_message err\<rparr> \<and>
   snd (handleError e err res console) =
     (if err_stack err \<noteq> None \<and> err_stack err \<noteq> Some [] \<and> NODE_ENV e = ''development''
      then console @ [the (err_stack err)] else console)"
  by (auto simp: handleError_def truthy_def Let_def split: option.splits)

theorem handleError_sends_error_message_witness:
  "statusCode (fst (handleError development_env hierarchy_corrupt_error fresh_response [])) = 500 \<and>
   body (fst (handleError development_env hierarchy_corrupt_error fresh_response [])) =
     Some \<lparr>resp_message = ''HierarchyCorrupt: walk from account acc-17 exceeded 3 accounts''\<rparr> \<and>
   snd (handleError development_env hierarchy_corrupt_error fresh_response []) =
     [''Error: HierarchyCorrupt at ancestorsOf'']"
  using handleError_sends_error_message
    [of development_env hierarchy_corrupt_error fresh_response "[]"]
  by (simp add: development_env_def hierarchy_corrupt_error_def fresh_response_def)

section \<open>One store handle at a time\<close>

lemma getDatabase_existing: "db w = Some h \<Longrightarrow> getDatabase e w = (w, Inr h)"
  by (simp add: getDatabase_def)

lemma getDatabase_constructs:
  assumes "db w = None" and "openable w (databasePath e)"
  shows "\<exists>w' h'. getDatabase e w = (w', Inr h') \<and> db w' = Some h' \<and>
           kysely_id h' = next_object w \<and> next_object w' = Suc (next_object w) \<and>
           openable w' = openable w \<and> destroyed w' = destroyed w"
  using assms by (simp add: getDatabase_def Let_def)

lemma closeDatabase_resets:
  "db (closeDatabase w) = None \<and> next_object (closeDatabase w) = next_object w \<and>
   openable (closeDatabase w) = openable w"
  by (simp add: closeDatabase_def split: option.splits)

lemma closeDatabase_destroys: "db w = Some h \<Longrightarrow> kysely_id h \<in> destroyed (closeDatabase w)"
  by (simp add: closeDatabase_def)

text \<open>
  Claim C10. A call that finds a handle returns it and changes nothing, so every call
  after the first returns the handle the first one constructed. A call that finds none,
  where the database can be opened, constructs a handle and keeps it. \<open>closeDatabase\<close>
  destroys the handle and resets the variable, after which the next call constructs a
  handle that is not the destroyed one; with no handle, \<open>closeDatabase\<close> does nothing.
\<close>

theorem getDatabase_lazy_singleton:
  "(db w = Some h \<longrightarrow> getDatabase e w = (w, Inr h)) \<and>
   (db w = None \<longrightarrow> closeDatabase w = w) \<and>
   (db w = None \<and> openable w (databasePath e) \<longrightarrow>
      (\<exists>w' h'. getDatabase e w = (w', Inr h') \<and> db w' = Some h' \<and>
         kysely_id h' = next_object w \<and>
         getDatabase e w' = (w', Inr h') \<and>
         db (closeDatabase w') = None \<and> kysely_id h' \<in> destroyed (closeDatabase w') \<and>
         (\<exists>w'' h''. getDatabase e (closeDatabase w') = (w'', Inr h'') \<and>
            db w'' = Some h'' \<and> kysely_id h'' \<noteq> kysely_id h')))"
proof (intro conjI impI)
  assume "db w = Some h"
  then show "getDatabase e w = (w, Inr h)" by (rule getDatabase_existing)
next
  assume "db w = None"
  then show "closeDatabase w = w" by (simp add: closeDatabase_def)
next
  assume a: "db w = None \<and> openable w (databasePath e)"
  then obtain w' h' where first: "getDatabase e w = (w', Inr h')" "db w' = Some h'"
      "kysely_id h' = next_object w" "next_object w' = Suc (next_object w)"
      "openable w' = openable w"
    using getDatabase_constructs [of w e] by blast
  let ?c = "closeDatabase w'"
  have again: "getDatabase e w' = (w', Inr h')" using first(2) by (rule getDatabase_existing)
  have closed: "db ?c = None" "next_object ?c = next_object w'" "openable ?c = openable w'"
    using closeDatabase_resets [of w'] by simp_all
  have gone: "kysely_id h' \<in> destroyed ?c" using first(2) by (rule closeDatabase_destroys)
  from closed first(5) a have "openable ?c (databasePath e)" by simp
  with closed(1) obtain w'' h'' where second: "getDatabase e ?c = (w'', Inr h'')"
      "db w'' = Some h''" "kysely_id h'' = next_object ?c"
    using getDatabase_constructs [of ?c e] by blast
  from second(3) closed(2) first(3,4) have "kysely_id h'' \<noteq> kysely_id h'" by simp
  with first again closed gone second
  show "\<exists>w' h'. getDatabase e w = (w', Inr h') \<and> db w' = Some h' \<and>
         kysely_id h' = next_object w \<and>
         getDatabase e w' = (w', Inr h') \<and>
         db (closeDatabase w') = None \<and> kysely_id h' \<in> destroyed (closeDatabase w') \<and>
         (\<exists>w'' h''. getDatabase e (closeDatabase w') = (w'', Inr h'') \<and>
            db w'' = Some h'' \<and> kysely_id h'' \<noteq> kysely_id h')"
    by blast
qed

theorem getDatabase_lazy_singleton_witness:
  "db initial_process = None \<and> openable initial_process (databasePath test_env) \<and>
   (\<exists>w' h'. getDatabase test_env initial_process = (w', Inr h') \<and> db w' = Some h' \<and>
      kysely_id h' = 0 \<and> getDatabase test_env w' = (w', Inr h') \<and>
      db (closeDatabase w') = None \<and> kysely_id h' \<in> destroyed (closeDatabase w') \<and>
      (\<exists>w'' h''. getDatabase test_env (closeDatabase w') = (w'', Inr h'') \<and>
         db w'' = Some h'' \<and> kysely_id h'' \<noteq> kysely_id h'))"
proof -
  have a: "db initial_process = None" "openable initial_process (databasePath test_env)"
    "next_object initial_process = 0"
    by (simp_all add: initial_process_def)
  from getDatabase_lazy_singleton [where w = initial_process and e = test_env] a
  show ?thesis by simp
qed

section \<open>Properties of the ledger core\<close>

subsection \<open>Reading and writing rows\<close>

lemma find_append_one:
  "find p (xs @ [y]) = (case find p xs of None \<Rightarrow> (if p y then Some y else None) | Some x \<Rightarrow> Some x)"
  by (induction xs) auto

lemma find_update_first:
  assumes "key y = k0"
  shows "find (\<lambda>u. key u = k) (update_first (\<lambda>u. key u = k0) y xs) =
          (if k = k0 then (case find (\<lambda>u. key u = k0) xs of None \<Rightarrow> None | Some x \<Rightarrow> Some y)
           else find (\<lambda>u. key u = k) xs)"
  using assms by (induction xs) auto


lemma find_transaction_write:
  "find_transaction (write_transaction s t) k =
     (if k = tx_id t then (case find_transaction s k of None \<Rightarrow> None | Some x \<Rightarrow> Some t)
      else find_transaction s k)"
  using find_update_first [of tx_id t "tx_id t" k "transactions s"]
  by (simp add: find_transaction_def write_transaction_def)

lemma find_transaction_key: "find_transaction s k = Some t \<Longrightarrow> tx_id t = k"
  by (auto simp: find_transaction_def find_Some_iff)

lemma accounts_write [simp]: "accounts (write_transaction s t) = accounts s"
  by (simp add: write_transaction_def)

subsection \<open>What each operation does\<close>


lemma postTransaction_cases:
  "postTransaction s k = (s, Inl NotFound) \<and> find_transaction s k = None \<or>
   (\<exists>t. find_transaction s k = Some t \<and> tx_status t \<noteq> PENDING \<and>
        postTransaction s k = (s, Inl (InvalidTransition (tx_status t) POSTED))) \<or>
   (\<exists>t. find_transaction s k = Some t \<and> tx_status t = PENDING \<and> \<not> balanced t \<and>
        postTransaction s k =
          (s, Inl (UnbalancedTransaction (debit_total (tx_entries t) - credit_total (tx_entries t))))) \<or>
   (\<exists>t. find_transaction s k = Some t \<and> tx_status t = PENDING \<and> balanced t \<and>
        postTransaction s k =
          (write_transaction s (t\<lparr>tx_status := POSTED\<rparr>), Inr (t\<lparr>tx_status := POSTED\<rparr>)))"
  by (cases "find_transaction s k") (auto simp: postTransaction_def balanced_def Let_def)

lemma cancelTransaction_cases:
  "cancelTransaction s k = (s, Inl NotFound) \<and> find_transaction s k = None \<or>
   (\<exists>t. find_transaction s k = Some t \<and> tx_status t \<noteq> PENDING \<and>
        cancelTransaction s k = (s, Inl (InvalidTransition (tx_status t) CANCELLED))) \<or>
   (\<exists>t. find_transaction s k = Some t \<and> tx_status t = PENDING \<and>
        cancelTransaction s k =
          (write_transaction s (t\<lparr>tx_status := CANCELLED\<rparr>), Inr (t\<lparr>tx_status := CANCELLED\<rparr>)))"
  by (cases "find_transaction s k") (auto simp: cancelTransaction_def Let_def)

lemma createTransaction_cases:
  "(\<exists>e. createTransaction s new_id d = (s, Inl e)) \<or>
   (\<exists>t. createTransaction s new_id d = (s\<lparr>transactions := transactions s @ [t]\<rparr>, Inr t) \<and>
        validate (find_account s) d = Inr () \<and> find_transaction s new_id = None \<and>
        tx_id t = new_id \<and> tx_account_id t = draft_account_id d \<and> tx_status t = PENDING \<and>
        tx_entries t = map (to_entry (clock s)) (draft_entries d))"
  by (cases "validate (find_account s) d") (auto simp: createTransaction_def Let_def)










subsection \<open>Posted transactions are balanced\<close>







subsection \<open>The life of a transaction\<close>

lemma find_transaction_status_written:
  assumes "find_transaction s k0 = Some t0"
  shows "find_transaction (write_transaction s (t0\<lparr>tx_status := st\<rparr>)) k =
           (if k = k0 then Some (t0\<lparr>tx_status := st\<rparr>) else find_transaction s k)"
  using find_transaction_key [OF assms] assms by (simp add: find_transaction_write)

lemma exec_find_transaction:
  assumes "find_transaction (exec s c) k = Some t'"
  shows "case find_transaction s k of
           None \<Rightarrow> tx_status t' = PENDING
         | Some t \<Rightarrow> t' = t \<or> (tx_status t = PENDING \<and>
                       (t' = t\<lparr>tx_status := POSTED\<rparr> \<or> t' = t\<lparr>tx_status := CANCELLED\<rparr>))"
proof (cases c)
  case (CreateTransaction new_id d)
  from createTransaction_cases [of s new_id d] show ?thesis
  proof (elim disjE exE conjE)
    fix e assume "createTransaction s new_id d = (s, Inl e)"
    with assms CreateTransaction show ?thesis by simp
  next
    fix t assume c: "createTransaction s new_id d = (s\<lparr>transactions := transactions s @ [t]\<rparr>, Inr t)"
      and t: "tx_status t = PENDING"
    from assms CreateTransaction c
    have "find (\<lambda>u. tx_id u = k) (transactions s @ [t]) = Some t'"
      by (simp add: find_transaction_def)
    with t show ?thesis
      by (auto simp: find_append_one find_transaction_def split: option.splits if_splits)
  qed
next
  case (PostTransaction k0)
  from postTransaction_cases [of s k0] show ?thesis
  proof (elim disjE exE conjE)
    fix t0 assume f: "find_transaction s k0 = Some t0" and p: "tx_status t0 = PENDING"
      and r: "postTransaction s k0 =
          (write_transaction s (t0\<lparr>tx_status := POSTED\<rparr>), Inr (t0\<lparr>tx_status := POSTED\<rparr>))"
    from assms PostTransaction r f p show ?thesis
      by (auto simp: find_transaction_status_written [OF f] split: if_splits option.splits)
  qed (use assms PostTransaction in \<open>auto split: option.splits\<close>)
next
  case (CancelTransaction k0)
  from cancelTransaction_cases [of s k0] show ?thesis
  proof (elim disjE exE conjE)
    fix t0 assume f: "find_transaction s k0 = Some t0" and p: "tx_status t0 = PENDING"
      and r: "cancelTransaction s k0 =
          (write_transaction s (t0\<lparr>tx_status := CANCELLED\<rparr>), Inr (t0\<lparr>tx_status := CANCELLED\<rparr>))"
    from assms CancelTransaction r f p show ?thesis
      by (auto simp: find_transaction_status_written [OF f] split: if_splits option.splits)
  qed (use assms CancelTransaction in \<open>auto split: option.splits\<close>)
qed

lemma exec_terminal:
  assumes "find_transaction s k = Some t" and "tx_status t \<noteq> PENDING"
  shows "find_transaction (exec s c) k = Some t"
proof (cases c)
  case (CreateTransaction new_id d)
  from createTransaction_cases [of s new_id d] assms CreateTransaction show ?thesis
    by (auto simp: find_transaction_def find_append_one)
next
  case (PostTransaction k0)
  from postTransaction_cases [of s k0] show ?thesis
  proof (elim disjE exE conjE)
    fix t0 assume f: "find_transaction s k0 = Some t0" and p: "tx_status t0 = PENDING"
      and r: "postTransaction s k0 =
          (write_transaction s (t0\<lparr>tx_status := POSTED\<rparr>), Inr (t0\<lparr>tx_status := POSTED\<rparr>))"
    from assms PostTransaction r f p show ?thesis
      by (auto simp: find_transaction_status_written [OF f])
  qed (use assms PostTransaction in auto)
next
  case (CancelTransaction k0)
  from cancelTransaction_cases [of s k0] show ?thesis
  proof (elim disjE exE conjE)
    fix t0 assume f: "find_transaction s k0 = Some t0" and p: "tx_status t0 = PENDING"
      and r: "cancelTransaction s k0 =
          (write_transaction s (t0\<lparr>tx_status := CANCELLED\<rparr>), Inr (t0\<lparr>tx_status := CANCELLED\<rparr>))"
    from assms CancelTransaction r f p show ?thesis
      by (auto simp: find_transaction_status_written [OF f])
  qed (use assms CancelTransaction in auto)
qed

lemma run_terminal:
  "find_transaction s k = Some t \<Longrightarrow> tx_status t \<noteq> PENDING \<Longrightarrow>
   find_transaction (run s cs) k = Some t"
  unfolding run_def by (induction cs arbitrary: s) (simp_all add: exec_terminal)

lemma terminal_rejected:
  assumes "find_transaction s k = Some t" and "tx_status t \<noteq> PENDING"
  shows "postTransaction s k = (s, Inl (InvalidTransition (tx_status t) POSTED))"
    and "cancelTransaction s k = (s, Inl (InvalidTransition (tx_status t) CANCELLED))"
  using assms by (simp_all add: postTransaction_def cancelTransaction_def)

lemma created_pending:
  assumes "createTransaction s new_id d = (s', Inr t')"
  shows "tx_status t' = PENDING \<and> find_transaction s new_id = None \<and>
         find_transaction s' new_id = Some t'"
  using createTransaction_cases [of s new_id d] assms
  by (auto simp: find_transaction_def find_append_one)

text \<open>
  Claim C2. The schema gives the \<open>status\<close> column of a new transaction row the default
  \<open>PENDING\<close>, and a transaction that \<open>createTransaction\<close> stores is \<open>PENDING\<close> under an
  identity that was free. One call changes a stored transaction not at all, or from
  \<open>PENDING\<close> to \<open>POSTED\<close> or to \<open>CANCELLED\<close> with every other field kept; a transaction
  that appears with the call is \<open>PENDING\<close>. On a transaction that is \<open>POSTED\<close> or
  \<open>CANCELLED\<close>, \<open>postTransaction\<close> and \<open>cancelTransaction\<close> answer \<open>InvalidTransition\<close>
  and leave the store as it was, and the transaction stays as it is through any
  sequence of calls.
\<close>

theorem transaction_lifecycle:
  "map col_default (filter (\<lambda>c. col_name c = ''status'') transactions_columns) =
     [Some (DefaultLiteral ''PENDING'')] \<and>
   (createTransaction s new_id d = (s', Inr t') \<longrightarrow>
      tx_status t' = PENDING \<and> find_transaction s new_id = None \<and>
      find_transaction s' new_id = Some t') \<and>
   (find_transaction (exec s c) k = Some t' \<longrightarrow>
      (case find_transaction s k of
         None \<Rightarrow> tx_status t' = PENDING
       | Some t \<Rightarrow> t' = t \<or> (tx_status t = PENDING \<and>
                     (t' = t\<lparr>tx_status := POSTED\<rparr> \<or> t' = t\<lparr>tx_status := CANCELLED\<rparr>)))) \<and>
   (find_transaction s k = Some t \<and> (tx_status t = POSTED \<or> tx_status t = CANCELLED) \<longrightarrow>
      postTransaction s k = (s, Inl (InvalidTransition (tx_status t) POSTED)) \<and>
      cancelTransaction s k = (s, Inl (InvalidTransition (tx_status t) CANCELLED)) \<and>
      find_transaction (run s cs) k = Some t)"
proof (intro conjI impI)
  show "map col_default (filter (\<lambda>c. col_name c = ''status'') transactions_columns) =
     [Some (DefaultLiteral ''PENDING'')]"
    by (simp add: transactions_columns_def addColumn_def primaryKey_def notNull_def
        defaultTo_def references_def)
next
  assume "createTransaction s new_id d = (s', Inr t')"
  from created_pending [OF this]
  show "tx_status t' = PENDING" "find_transaction s new_id = None"
    "find_transaction s' new_id = Some t'" by simp_all
next
  assume "find_transaction (exec s c) k = Some t'"
  then show "case find_transaction s k of
         None \<Rightarrow> tx_status t' = PENDING
       | Some t \<Rightarrow> t' = t \<or> (tx_status t = PENDING \<and>
                     (t' = t\<lparr>tx_status := POSTED\<rparr> \<or> t' = t\<lparr>tx_status := CANCELLED\<rparr>))"
    by (rule exec_find_transaction)
next
  assume a: "find_transaction s k = Some t \<and> (tx_status t = POSTED \<or> tx_status t = CANCELLED)"
  then have f: "find_transaction s k = Some t" and n: "tx_status t \<noteq> PENDING" by auto
  show "postTransaction s k = (s, Inl (InvalidTransition (tx_status t) POSTED))"
    using f n by (rule terminal_rejected)
  show "cancelTransaction s k = (s, Inl (InvalidTransition (tx_status t) CANCELLED))"
    using f n by (rule terminal_rejected)
  show "find_transaction (run s cs) k = Some t" using f n by (rule run_terminal)
qed

theorem transaction_lifecycle_witness:
  "(\<exists>s' t'. createTransaction settled_store ''tx9'' balanced_draft = (s', Inr t') \<and>
      tx_status t' = PENDING \<and> find_transaction s' ''tx9'' = Some t') \<and>
   find_transaction (exec example_store (CancelTransaction ''tx1'')) ''tx1'' =
     Some (balanced_tx\<lparr>tx_status := CANCELLED\<rparr>) \<and>
   find_transaction example_store ''tx1'' = Some balanced_tx \<and>
   tx_status balanced_tx = PENDING \<and>
   find_transaction settled_store ''tx1'' = Some posted_tx \<and> tx_status posted_tx = POSTED \<and>
   postTransaction settled_store ''tx1'' = (settled_store, Inl (InvalidTransition POSTED POSTED)) \<and>
   cancelTransaction settled_store ''tx1'' =
     (settled_store, Inl (InvalidTransition POSTED CANCELLED)) \<and>
   find_transaction
     (run settled_store [CancelTransaction ''tx1'', PostTransaction ''tx1'',
                         CreateTransaction ''tx1'' balanced_draft]) ''tx1'' = Some posted_tx"
proof -
  have v: "validate (find_account settled_store) balanced_draft = Inr ()"
    by (simp add: validate_def balanced_draft_def is_positive_integer_def
        supported_currencies_def draft_debit_total_def draft_credit_total_def
        find_account_def settled_store_def account_a1_def)
  have n: "find_transaction settled_store ''tx9'' = None"
    by (simp add: find_transaction_def settled_store_def posted_tx_def balanced_tx_def)
  from v n obtain s' t' where c: "createTransaction settled_store ''tx9'' balanced_draft = (s', Inr t')"
    by (simp add: createTransaction_def Let_def)
  with transaction_lifecycle [of settled_store "''tx9''" balanced_draft s' t']
  have w1: "\<exists>s' t'. createTransaction settled_store ''tx9'' balanced_draft = (s', Inr t') \<and>
      tx_status t' = PENDING \<and> find_transaction s' ''tx9'' = Some t'"
    by blast
  have f1: "find_transaction example_store ''tx1'' = Some balanced_tx"
    and p1: "tx_status balanced_tx = PENDING"
    by (simp_all add: find_transaction_def example_store_def balanced_tx_def)
  have w2: "find_transaction (exec example_store (CancelTransaction ''tx1'')) ''tx1'' =
     Some (balanced_tx\<lparr>tx_status := CANCELLED\<rparr>)"
    using f1 p1
    by (simp add: cancelTransaction_def Let_def find_transaction_write) (simp add: balanced_tx_def)
  have f2: "find_transaction settled_store ''tx1'' = Some posted_tx"
    and p2: "tx_status posted_tx = POSTED"
    by (simp_all add: find_transaction_def settled_store_def posted_tx_def balanced_tx_def)
  from transaction_lifecycle [of settled_store _ _ _ _ _ "''tx1''" posted_tx
      "[CancelTransaction ''tx1'', PostTransaction ''tx1'', CreateTransaction ''tx1'' balanced_draft]"]
    f2 p2
  have w3: "postTransaction settled_store ''tx1'' = (settled_store, Inl (InvalidTransition POSTED POSTED))"
    "cancelTransaction settled_store ''tx1'' = (settled_store, Inl (InvalidTransition POSTED CANCELLED))"
    "find_transaction
     (run settled_store [CancelTransaction ''tx1'', PostTransaction ''tx1'',
                         CreateTransaction ''tx1'' balanced_draft]) ''tx1'' = Some posted_tx"
    by simp_all
  from w1 w2 f1 p1 f2 p2 w3 show ?thesis by blast
qed

subsection \<open>Ancestor chains\<close>

lemma walk_chain: "walk s n cur = Inr ps \<Longrightarrow> ancestor_chain s cur ps"
  by (induction s n cur arbitrary: ps rule: walk.induct)
     (auto split: option.splits sum.splits)

lemma walk_length: "walk s n cur = Inr ps \<Longrightarrow> length ps \<le> n"
  by (induction s n cur arbitrary: ps rule: walk.induct)
     (auto split: option.splits sum.splits)

lemma walk_errors: "walk s n cur = Inl e \<Longrightarrow> e = NotFound \<or> e = HierarchyCorrupt"
  by (induction s n cur rule: walk.induct) (auto split: option.splits sum.splits)

lemma chain_unique: "ancestor_chain s cur ps \<Longrightarrow> ancestor_chain s cur qs \<Longrightarrow> ps = qs"
proof (induction ps arbitrary: cur qs)
  case Nil
  then show ?case by (cases qs) auto
next
  case (Cons p ps)
  then show ?case by (cases qs) (auto split: option.splits)
qed

lemma chain_from_member:
  "ancestor_chain s cur ps \<Longrightarrow> p \<in> set ps \<Longrightarrow>
   \<exists>qs. ancestor_chain s (Some p) qs \<and> length qs \<le> length ps"
proof (induction ps arbitrary: cur)
  case Nil
  then show ?case by simp
next
  case (Cons x ps)
  show ?case
  proof (cases "p = x")
    case True
    with Cons.prems(1) have "ancestor_chain s (Some p) (x # ps)" by simp
    then show ?thesis by (auto intro!: exI [of _ "x # ps"])
  next
    case False
    with Cons.prems obtain a :: account
      where "ancestor_chain s (parent_account_id a) ps" "p \<in> set ps"
      by (auto split: option.splits)
    from Cons.IH [OF this] show ?thesis by auto
  qed
qed

lemma chain_distinct: "ancestor_chain s cur ps \<Longrightarrow> distinct ps"
proof (induction ps arbitrary: cur)
  case Nil
  then show ?case by simp
next
  case (Cons p ps)
  from Cons.prems obtain a where a: "find_account s p = Some a"
    and rest: "ancestor_chain s (parent_account_id a) ps" and cur: "cur = Some p"
    by (auto split: option.splits)
  have "p \<notin> set ps"
  proof
    assume "p \<in> set ps"
    from chain_from_member [OF rest this] obtain qs
      where q: "ancestor_chain s (Some p) qs" and l: "length qs \<le> length ps" by auto
    from Cons.prems cur have "ancestor_chain s (Some p) (p # ps)" by simp
    from chain_unique [OF q this] l show False by simp
  qed
  with Cons.IH [OF rest] show ?case by simp
qed

lemma chain_excludes_start:
  assumes a: "find_account s k = Some a" and c: "ancestor_chain s (parent_account_id a) ps"
  shows "k \<notin> set ps"
proof
  assume "k \<in> set ps"
  from chain_from_member [OF c this] obtain qs
    where q: "ancestor_chain s (Some k) qs" and l: "length qs \<le> length ps" by auto
  from a c have "ancestor_chain s (Some k) (k # ps)" by simp
  from chain_unique [OF q this] l show False by simp
qed

lemma links_head: "ancestor_links s cur (p # ps) \<Longrightarrow> cur = Some p"
  by (cases ps) auto

lemma links_step:
  "ancestor_links s (Some p) (x # q # ps) \<longleftrightarrow>
   (x = p \<and> (\<exists>a. find_account s p = Some a \<and> ancestor_links s (parent_account_id a) (q # ps)))"
  by (auto split: option.splits)

lemma walk_corrupt_iff:
  "walk s n cur = Inl HierarchyCorrupt \<longleftrightarrow>
   (\<exists>ps. length ps = Suc n \<and> ancestor_links s cur ps)"
proof (induction s n cur rule: walk.induct)
  case (1 s n)
  have "\<not> ancestor_links s None ps" if "length ps = Suc n" for ps
    using that links_head [of s None] by (cases ps) auto
  then show ?case by auto
next
  case (2 s p)
  have "ancestor_links s (Some p) [p]" by simp
  then show ?case by (auto intro!: exI [of _ "[p]"])
next
  case (3 s n p)
  show ?case
  proof (cases "find_account s p")
    case None
    have "\<not> ancestor_links s (Some p) ps" if "length ps = Suc (Suc n)" for ps
    proof -
      from that obtain x y zs where "ps = x # y # zs" by (cases ps; cases "tl ps") auto
      with None show ?thesis by auto
    qed
    with None show ?thesis by auto
  next
    case (Some a)
    have l: "(\<exists>ps. length ps = Suc (Suc n) \<and> ancestor_links s (Some p) ps) \<longleftrightarrow>
          (\<exists>qs. length qs = Suc n \<and> ancestor_links s (parent_account_id a) qs)"
    proof
      assume "\<exists>ps. length ps = Suc (Suc n) \<and> ancestor_links s (Some p) ps"
      then obtain ps where ps: "length ps = Suc (Suc n)" "ancestor_links s (Some p) ps" by auto
      then obtain x y zs where "ps = x # y # zs" by (cases ps; cases "tl ps") auto
      with ps Some show "\<exists>qs. length qs = Suc n \<and> ancestor_links s (parent_account_id a) qs"
        by (auto simp: links_step intro!: exI [of _ "y # zs"])
    next
      assume "\<exists>qs. length qs = Suc n \<and> ancestor_links s (parent_account_id a) qs"
      then obtain qs where qs: "length qs = Suc n" "ancestor_links s (parent_account_id a) qs"
        by auto
      then obtain y zs where "qs = y # zs" by (cases qs) auto
      with qs Some show "\<exists>ps. length ps = Suc (Suc n) \<and> ancestor_links s (Some p) ps"
        by (auto simp: links_step intro!: exI [of _ "p # y # zs"])
    qed
    from "3.IH" [OF Some] Some l show ?thesis by (auto split: sum.splits)
  qed
qed

lemma walk_complete:
  "ancestor_chain s cur ps \<Longrightarrow> length ps \<le> n \<Longrightarrow> walk s n cur = Inr ps"
proof (induction s n cur arbitrary: ps rule: walk.induct)
  case (1 s n)
  then show ?case by (cases ps) auto
next
  case (2 s p)
  then show ?case by (cases ps) auto
next
  case (3 s n p)
  from "3.prems" obtain qs where ps: "ps = p # qs" by (cases ps) auto
  with "3.prems" obtain a where a: "find_account s p = Some a"
    and c: "ancestor_chain s (parent_account_id a) qs" and l: "length qs \<le> n"
    by (auto split: option.splits)
  from "3.IH" [OF a c l] a ps show ?case by simp
qed

lemma find_account_row:
  "find_account s p = Some b \<Longrightarrow> b \<in> set (accounts s) \<and> account_id b = p"
  by (auto simp: find_account_def find_Some_iff)

lemma chain_rows:
  "ancestor_chain s cur ps \<Longrightarrow> p \<in> set ps \<Longrightarrow> \<exists>b. find_account s p = Some b"
  by (induction ps arbitrary: cur) (auto split: option.splits)

lemma chain_within_tenant:
  assumes c: "ancestor_chain s cur ps"
    and t: "list_all (\<lambda>p. case find_account s p of None \<Rightarrow> False
                              | Some b \<Rightarrow> tenant_id b = tn) ps"
  shows "length ps \<le> tenant_account_count s tn"
proof -
  let ?f = "\<lambda>p. the (find_account s p)"
  let ?rows = "set (filter (\<lambda>a. tenant_id a = tn) (accounts s))"
  have row: "?f p \<in> ?rows \<and> account_id (?f p) = p" if "p \<in> set ps" for p
  proof -
    from t that have "case find_account s p of None \<Rightarrow> False | Some b \<Rightarrow> tenant_id b = tn"
      by (simp add: list_all_iff)
    then obtain b where b: "find_account s p = Some b" "tenant_id b = tn"
      by (auto split: option.splits)
    with find_account_row [OF b(1)] show ?thesis by simp
  qed
  have "inj_on ?f (set ps)"
  proof (rule inj_onI)
    fix p q assume "p \<in> set ps" "q \<in> set ps" "?f p = ?f q"
    with row [of p] row [of q] show "p = q" by metis
  qed
  then have "card (?f ` set ps) = card (set ps)" by (rule card_image)
  also have "card (set ps) = length ps"
    using chain_distinct [OF c] by (rule distinct_card)
  finally have "length ps = card (?f ` set ps)" by simp
  also have "card (?f ` set ps) \<le> card ?rows"
    using row by (intro card_mono) auto
  also have "card ?rows \<le> tenant_account_count s tn"
    unfolding tenant_account_count_def by (rule card_length)
  finally show ?thesis .
qed

text \<open>
  Claim C6. \<open>ancestorsOf\<close> is defined by recursion on the number of ancestors it may still
  visit, so it answers on every store, cyclic ones included, with a chain or with
  \<open>NotFound\<close> or \<open>HierarchyCorrupt\<close>; for an identity without a row the answer is
  \<open>NotFound\<close>. For an account that has a row, it answers a list
  exactly when that list is the chain of the ancestors of the account (from its parent,
  each element followed by its parent, ending at a root) and is no longer than the number
  of accounts of the tenant; and a chain whose accounts all belong to the tenant of the
  account never is longer, so it is always answered. An answered chain has no
  duplicates and does not contain the account itself. \<open>HierarchyCorrupt\<close> is answered
  exactly when the account has more ancestor links in a row than the tenant has
  accounts.
\<close>

theorem ancestorsOf_returns_chain:
  "((\<exists>ps. ancestorsOf s k = Inr ps) \<or> ancestorsOf s k = Inl NotFound \<or>
    ancestorsOf s k = Inl HierarchyCorrupt) \<and>
   (find_account s k = None \<longrightarrow> ancestorsOf s k = Inl NotFound) \<and>
   (find_account s k = Some a \<longrightarrow>
      (ancestorsOf s k = Inr ps \<longleftrightarrow>
         ancestor_chain s (parent_account_id a) ps \<and>
         length ps \<le> tenant_account_count s (tenant_id a))) \<and>
   (find_account s k = Some a \<and> ancestor_chain s (parent_account_id a) ps \<and>
    list_all (\<lambda>p. case find_account s p of None \<Rightarrow> False
                     | Some b \<Rightarrow> tenant_id b = tenant_id a) ps \<longrightarrow>
      ancestorsOf s k = Inr ps) \<and>
   (ancestorsOf s k = Inr ps \<longrightarrow> distinct ps \<and> k \<notin> set ps) \<and>
   (find_account s k = Some a \<longrightarrow>
      (ancestorsOf s k = Inl HierarchyCorrupt \<longleftrightarrow>
         (\<exists>qs. length qs = Suc (tenant_account_count s (tenant_id a)) \<and>
               ancestor_links s (parent_account_id a) qs)))"
proof (intro conjI impI)
  show "(\<exists>ps. ancestorsOf s k = Inr ps) \<or> ancestorsOf s k = Inl NotFound \<or>
    ancestorsOf s k = Inl HierarchyCorrupt"
  proof (cases "ancestorsOf s k")
    case (Inl e)
    then have "e = NotFound \<or> e = HierarchyCorrupt"
      by (auto simp: ancestorsOf_def split: option.splits dest: walk_errors)
    with Inl show ?thesis by auto
  next
    case (Inr ps)
    then show ?thesis by simp
  qed
next
  assume "find_account s k = None"
  then show "ancestorsOf s k = Inl NotFound" by (simp add: ancestorsOf_def)
next
  assume a: "find_account s k = Some a"
  show "ancestorsOf s k = Inr ps \<longleftrightarrow>
         ancestor_chain s (parent_account_id a) ps \<and>
         length ps \<le> tenant_account_count s (tenant_id a)"
  proof
    assume "ancestorsOf s k = Inr ps"
    with a have "walk s (tenant_account_count s (tenant_id a)) (parent_account_id a) = Inr ps"
      by (simp add: ancestorsOf_def)
    then show "ancestor_chain s (parent_account_id a) ps \<and>
         length ps \<le> tenant_account_count s (tenant_id a)"
      by (simp add: walk_chain walk_length)
  next
    assume "ancestor_chain s (parent_account_id a) ps \<and>
         length ps \<le> tenant_account_count s (tenant_id a)"
    then have "walk s (tenant_account_count s (tenant_id a)) (parent_account_id a) = Inr ps"
      by (simp add: walk_complete)
    with a show "ancestorsOf s k = Inr ps" by (simp add: ancestorsOf_def)
  qed
next
  assume h: "find_account s k = Some a \<and> ancestor_chain s (parent_account_id a) ps \<and>
    list_all (\<lambda>p. case find_account s p of None \<Rightarrow> False
                     | Some b \<Rightarrow> tenant_id b = tenant_id a) ps"
  then have "length ps \<le> tenant_account_count s (tenant_id a)"
    using chain_within_tenant [of s "parent_account_id a" ps "tenant_id a"] by simp
  with h have "walk s (tenant_account_count s (tenant_id a)) (parent_account_id a) = Inr ps"
    by (simp add: walk_complete)
  with h show "ancestorsOf s k = Inr ps" by (simp add: ancestorsOf_def)
next
  assume r: "ancestorsOf s k = Inr ps"
  then obtain a where a: "find_account s k = Some a"
    and w: "walk s (tenant_account_count s (tenant_id a)) (parent_account_id a) = Inr ps"
    by (auto simp: ancestorsOf_def split: option.splits)
  from w have c: "ancestor_chain s (parent_account_id a) ps" by (rule walk_chain)
  from c show "distinct ps" by (rule chain_distinct)
  from a c show "k \<notin> set ps" by (rule chain_excludes_start)
next
  assume "find_account s k = Some a"
  then show "ancestorsOf s k = Inl HierarchyCorrupt \<longleftrightarrow>
         (\<exists>qs. length qs = Suc (tenant_account_count s (tenant_id a)) \<and>
               ancestor_links s (parent_account_id a) qs)"
    by (simp add: ancestorsOf_def walk_corrupt_iff)
qed

theorem ancestorsOf_returns_chain_witness:
  "find_account tree_store ''w'' = Some twig_account \<and>
   ancestor_chain tree_store (parent_account_id twig_account) [''l'', ''m'', ''r''] \<and>
   tenant_account_count tree_store (tenant_id twig_account) = 4 \<and>
   ancestorsOf tree_store ''w'' = Inr [''l'', ''m'', ''r''] \<and>
   find_account tree_store ''r'' = Some root_account \<and>
   ancestorsOf tree_store ''r'' = Inr [] \<and>
   find_account tree_store ''q'' = None \<and>
   ancestorsOf tree_store ''q'' = Inl NotFound \<and>
   find_account cyclic_store ''x'' = Some cycle_x \<and>
   tenant_account_count cyclic_store (tenant_id cycle_x) = 2 \<and>
   ancestor_links cyclic_store (parent_account_id cycle_x) [''y'', ''x'', ''y''] \<and>
   ancestorsOf cyclic_store ''x'' = Inl HierarchyCorrupt"
proof -
  note rows = find_account_def tree_store_def root_account_def mid_account_def
    leaf_account_def twig_account_def
  have f: "find_account tree_store ''w'' = Some twig_account"
    and fr: "find_account tree_store ''r'' = Some root_account"
    by (simp_all add: rows)
  have n: "tenant_account_count tree_store (tenant_id twig_account) = 4"
    by (simp add: tenant_account_count_def tree_store_def root_account_def mid_account_def
        leaf_account_def twig_account_def)
  have c: "ancestor_chain tree_store (parent_account_id twig_account) [''l'', ''m'', ''r'']"
    by (simp add: rows)
  have t: "list_all (\<lambda>p. case find_account tree_store p of None \<Rightarrow> False
                           | Some b \<Rightarrow> tenant_id b = tenant_id twig_account)
             [''l'', ''m'', ''r'']"
    by (simp add: rows)
  from ancestorsOf_returns_chain [where s = tree_store and k = "''w''" and a = twig_account
      and ps = "[''l'', ''m'', ''r'']"] f c t
  have r: "ancestorsOf tree_store ''w'' = Inr [''l'', ''m'', ''r'']" by simp
  have "ancestor_chain tree_store (parent_account_id root_account) []"
    by (simp add: root_account_def)
  with ancestorsOf_returns_chain [where s = tree_store and k = "''r''" and a = root_account
      and ps = "[]"] fr
  have r0: "ancestorsOf tree_store ''r'' = Inr []" by simp
  have fq: "find_account tree_store ''q'' = None" by (simp add: rows)
  with ancestorsOf_returns_chain [where s = tree_store and k = "''q''"]
  have rq: "ancestorsOf tree_store ''q'' = Inl NotFound" by simp
  have g: "find_account cyclic_store ''x'' = Some cycle_x"
    by (simp add: find_account_def cyclic_store_def cycle_x_def cycle_y_def)
  have m: "tenant_account_count cyclic_store (tenant_id cycle_x) = 2"
    by (simp add: tenant_account_count_def cyclic_store_def cycle_x_def cycle_y_def)
  have l: "ancestor_links cyclic_store (parent_account_id cycle_x) [''y'', ''x'', ''y'']"
    by (simp add: find_account_def cyclic_store_def cycle_x_def cycle_y_def)
  have "\<exists>qs. length qs = Suc (tenant_account_count cyclic_store (tenant_id cycle_x)) \<and>
          ancestor_links cyclic_store (parent_account_id cycle_x) qs"
    using l m by (intro exI [of _ "[''y'', ''x'', ''y'']"]) simp
  with ancestorsOf_returns_chain [where s = cyclic_store and k = "''x''" and a = cycle_x] g
  have h: "ancestorsOf cyclic_store ''x'' = Inl HierarchyCorrupt" by simp
  from f c n r fr r0 fq rq g m l h show ?thesis by simp
qed

subsection \<open>Balances\<close>

lemma foldl_apply_entry: "foldl apply_entry b es = b + credit_total es - debit_total es"
proof (induction es arbitrary: b)
  case Nil
  then show ?case by (simp add: credit_total_def debit_total_def)
next
  case (Cons e es)
  then show ?case
    by (cases "direction e") (simp_all add: apply_entry_def credit_total_def debit_total_def)
qed

lemma foldl_apply_transaction:
  "foldl (apply_transaction k) b ts =
     b + sum_list (map (\<lambda>t. credit_total (tx_entries t) - debit_total (tx_entries t))
                    (filter (\<lambda>t. tx_account_id t = k)
                       (filter (\<lambda>t. tx_status t = POSTED) ts)))"
  by (induction ts arbitrary: b) (simp_all add: apply_transaction_def foldl_apply_entry)

lemma own_balance_sum:
  "own_balance s k =
     sum_list (map (\<lambda>t. credit_total (tx_entries t) - debit_total (tx_entries t))
                (filter (\<lambda>t. tx_account_id t = k)
                   (filter (\<lambda>t. tx_status t = POSTED) (transactions s))))"
  by (simp add: own_balance_def foldl_apply_transaction)

lemma filter_update_first:
  "find p xs = Some x \<Longrightarrow> \<not> q x \<Longrightarrow> \<not> q y \<Longrightarrow> filter q (update_first p y xs) = filter q xs"
  by (induction xs) (auto split: if_splits)

lemma posted_rows_cancel:
  "filter (\<lambda>t. tx_status t = POSTED) (transactions (fst (cancelTransaction s j))) =
   filter (\<lambda>t. tx_status t = POSTED) (transactions s)"
proof -
  from cancelTransaction_cases [of s j] show ?thesis
  proof (elim disjE exE conjE)
    fix t assume f: "find_transaction s j = Some t" and p: "tx_status t = PENDING"
      and r: "cancelTransaction s j =
          (write_transaction s (t\<lparr>tx_status := CANCELLED\<rparr>), Inr (t\<lparr>tx_status := CANCELLED\<rparr>))"
    from f have "find (\<lambda>u. tx_id u = tx_id (t\<lparr>tx_status := CANCELLED\<rparr>)) (transactions s) = Some t"
      using find_transaction_key [OF f] by (simp add: find_transaction_def)
    from filter_update_first [OF this, of "\<lambda>t. tx_status t = POSTED" "t\<lparr>tx_status := CANCELLED\<rparr>"] p r
    show ?thesis by (simp add: write_transaction_def)
  qed auto
qed

lemma posted_rows_create:
  "filter (\<lambda>t. tx_status t = POSTED) (transactions (fst (createTransaction s new_id d))) =
   filter (\<lambda>t. tx_status t = POSTED) (transactions s)"
  using createTransaction_cases [of s new_id d] by auto

lemma balance_posted_rows:
  assumes "filter (\<lambda>t. tx_status t = POSTED) (transactions s1) =
           filter (\<lambda>t. tx_status t = POSTED) (transactions s2)"
  shows "balanceOf s1 k False = balanceOf s2 k False"
  using assms by (simp add: balanceOf_def own_balance_sum)

text \<open>
  Claim C3. Without descendants, the balance of an account is the sum, over the posted
  transactions of the account, of credits minus debits. It is the same in two stores
  that have the same posted transactions, whatever their pending and cancelled ones
  are. \<open>cancelTransaction\<close> leaves the balance of every account as it was; and when a
  transaction is created and then cancelled, the cancellation succeeds and every
  balance is what it was before the creation.
\<close>

theorem balance_counts_posted_only:
  "balanceOf s k False =
     Inr (sum_list (map (\<lambda>t. credit_total (tx_entries t) - debit_total (tx_entries t))
                     (filter (\<lambda>t. tx_account_id t = k)
                        (filter (\<lambda>t. tx_status t = POSTED) (transactions s))))) \<and>
   (filter (\<lambda>t. tx_status t = POSTED) (transactions s) =
    filter (\<lambda>t. tx_status t = POSTED) (transactions s2) \<longrightarrow>
      balanceOf s k False = balanceOf s2 k False) \<and>
   balanceOf (fst (cancelTransaction s j)) k False = balanceOf s k False \<and>
   (createTransaction s new_id d = (s1, Inr t) \<longrightarrow>
      balanceOf s1 k False = balanceOf s k False \<and>
      snd (cancelTransaction s1 new_id) = Inr (t\<lparr>tx_status := CANCELLED\<rparr>) \<and>
      balanceOf (fst (cancelTransaction s1 new_id)) k False = balanceOf s k False)"
proof (intro conjI impI)
  show "balanceOf s k False =
     Inr (sum_list (map (\<lambda>t. credit_total (tx_entries t) - debit_total (tx_entries t))
                     (filter (\<lambda>t. tx_account_id t = k)
                        (filter (\<lambda>t. tx_status t = POSTED) (transactions s)))))"
    by (simp add: balanceOf_def own_balance_sum)
next
  assume "filter (\<lambda>t. tx_status t = POSTED) (transactions s) =
    filter (\<lambda>t. tx_status t = POSTED) (transactions s2)"
  then show "balanceOf s k False = balanceOf s2 k False" by (rule balance_posted_rows)
next
  show "balanceOf (fst (cancelTransaction s j)) k False = balanceOf s k False"
    by (rule balance_posted_rows) (rule posted_rows_cancel)
next
  assume c: "createTransaction s new_id d = (s1, Inr t)"
  from posted_rows_create [of s new_id d] c
  have rows: "filter (\<lambda>t. tx_status t = POSTED) (transactions s1) =
              filter (\<lambda>t. tx_status t = POSTED) (transactions s)" by simp
  then show b1: "balanceOf s1 k False = balanceOf s k False" by (rule balance_posted_rows)
  from created_pending [OF c] have "find_transaction s1 new_id = Some t" "tx_status t = PENDING"
    by simp_all
  then show "snd (cancelTransaction s1 new_id) = Inr (t\<lparr>tx_status := CANCELLED\<rparr>)"
    by (simp add: cancelTransaction_def Let_def)
  have "balanceOf (fst (cancelTransaction s1 new_id)) k False = balanceOf s1 k False"
    by (rule balance_posted_rows) (rule posted_rows_cancel)
  with b1 show "balanceOf (fst (cancelTransaction s1 new_id)) k False = balanceOf s k False"
    by simp
qed

theorem balance_counts_posted_only_witness:
  "balanceOf mutated_store ''a1'' False = Inr (- 100) \<and>
   (\<exists>s1 t. createTransaction mutated_store ''tx9'' balanced_draft = (s1, Inr t) \<and>
      map amount (tx_entries t) = [1000, 1000] \<and>
      balanceOf s1 ''a1'' False = Inr (- 100) \<and>
      snd (cancelTransaction s1 ''tx9'') = Inr (t\<lparr>tx_status := CANCELLED\<rparr>) \<and>
      balanceOf (fst (cancelTransaction s1 ''tx9'')) ''a1'' False = Inr (- 100))"
proof -
  have b: "balanceOf mutated_store ''a1'' False = Inr (- 100)"
    using balance_counts_posted_only [of mutated_store "''a1''"]
    by (simp add: mutated_store_def unbalanced_tx_def credit_total_def debit_total_def
        debit_1000_def credit_900_def)
  have v: "validate (find_account mutated_store) balanced_draft = Inr ()"
    by (simp add: validate_def balanced_draft_def is_positive_integer_def
        supported_currencies_def draft_debit_total_def draft_credit_total_def
        find_account_def mutated_store_def account_a1_def)
  have n: "find_transaction mutated_store ''tx9'' = None"
    by (simp add: find_transaction_def mutated_store_def unbalanced_tx_def)
  from v n obtain s1 t where c: "createTransaction mutated_store ''tx9'' balanced_draft = (s1, Inr t)"
    and e: "map amount (tx_entries t) = [1000, 1000]"
    by (simp add: createTransaction_def Let_def balanced_draft_def to_entry_def)
  from balance_counts_posted_only [of mutated_store "''a1''" _ _ "''tx9''" balanced_draft s1 t] c b
  have "balanceOf s1 ''a1'' False = Inr (- 100)"
    "snd (cancelTransaction s1 ''tx9'') = Inr (t\<lparr>tx_status := CANCELLED\<rparr>)"
    "balanceOf (fst (cancelTransaction s1 ''tx9'')) ''a1'' False = Inr (- 100)"
    by simp_all
  with c e have "\<exists>s1 t. createTransaction mutated_store ''tx9'' balanced_draft = (s1, Inr t) \<and>
      map amount (tx_entries t) = [1000, 1000] \<and>
      balanceOf s1 ''a1'' False = Inr (- 100) \<and>
      snd (cancelTransaction s1 ''tx9'') = Inr (t\<lparr>tx_status := CANCELLED\<rparr>) \<and>
      balanceOf (fst (cancelTransaction s1 ''tx9'')) ''a1'' False = Inr (- 100)"
    by (intro exI conjI)
  with b show ?thesis by simp
qed

subsection \<open>Entry amounts\<close>










subsection \<open>Posting and cancelling the same transaction, one after the other\<close>

text \<open>Each operation is one atomic unit of work, so two calls on the same transaction
  take effect in some order. In either order the first call on a pending, balanced
  transaction succeeds and the second one finds the state the first one left and is
  answered \<open>InvalidTransition\<close>, with the store of the first call kept.\<close>

lemma post_then_cancel:
  assumes "find_transaction s k = Some t" and "tx_status t = PENDING" and "balanced t"
  shows "\<exists>s1. postTransaction s k = (s1, Inr (t\<lparr>tx_status := POSTED\<rparr>)) \<and>
           cancelTransaction s1 k = (s1, Inl (InvalidTransition POSTED CANCELLED))"
proof -
  let ?t = "t\<lparr>tx_status := POSTED\<rparr>"
  from assms have p: "postTransaction s k = (write_transaction s ?t, Inr ?t)"
    by (simp add: postTransaction_def balanced_def Let_def)
  have "find_transaction (write_transaction s ?t) k = Some ?t"
    by (simp add: find_transaction_status_written [OF assms(1)])
  then have "cancelTransaction (write_transaction s ?t) k =
      (write_transaction s ?t, Inl (InvalidTransition POSTED CANCELLED))"
    by (simp add: cancelTransaction_def)
  with p show ?thesis by simp
qed

lemma cancel_then_post:
  assumes "find_transaction s k = Some t" and "tx_status t = PENDING"
  shows "\<exists>s1. cancelTransaction s k = (s1, Inr (t\<lparr>tx_status := CANCELLED\<rparr>)) \<and>
           postTransaction s1 k = (s1, Inl (InvalidTransition CANCELLED POSTED))"
proof -
  let ?t = "t\<lparr>tx_status := CANCELLED\<rparr>"
  from assms have p: "cancelTransaction s k = (write_transaction s ?t, Inr ?t)"
    by (simp add: cancelTransaction_def Let_def)
  have "find_transaction (write_transaction s ?t) k = Some ?t"
    by (simp add: find_transaction_status_written [OF assms(1)])
  then have "postTransaction (write_transaction s ?t) k =
      (write_transaction s ?t, Inl (InvalidTransition CANCELLED POSTED))"
    by (simp add: postTransaction_def)
  with p show ?thesis by simp
qed

end
